theory Spec2Isabelle
  imports Main
begin

section \<open>Configuration (config.py)\<close>

definition MAX_CONCURRENT_REQUESTS :: nat where
  "MAX_CONCURRENT_REQUESTS = 5"

definition MAX_RETRIES :: nat where
  "MAX_RETRIES = 3"

definition RETRY_DELAY :: nat where
  "RETRY_DELAY = 2"

section \<open>Data model\<close>

text \<open>A chapter reference is the dict \<open>{"name": ..., "url": ...}\<close> built by
  \<open>extract_metadata\<close>; a downloaded item is the dict \<open>{"title": ..., "content": ...}\<close>
  built by \<open>fetch_with_progress\<close>.\<close>

record chapter_ref =
  name :: string
  url :: string

record item =
  title :: string
  content :: string

text \<open>The exceptions the code distinguishes. \<open>RequestsError\<close> and \<open>TimeoutError\<close> are
  the two classes named by the first \<open>except\<close> clause of \<open>_fetch_url\<close>; every other
  constructor is caught only by \<open>except Exception\<close>.\<close>

datatype exn = RequestsError | TimeoutError | OSError | IndexError | OtherException

text \<open>A response: \<open>response.status_code\<close> and \<open>response.text\<close>.\<close>

datatype response = Response (status_code: nat) (text_of: string)

text \<open>What one \<open>await session.get(...)\<close> does: it returns a response or raises.\<close>

datatype attempt = Returns response | Raises exn

text \<open>A file of the cache directory, as \<open>aiofiles.open(path, "r", encoding="utf-8")\<close>
  followed by \<open>read()\<close> sees it: the text that is stored (its line endings as they
  are on disk), or an entry whose read raises (no permission, bytes that are not
  UTF-8).\<close>

datatype cache_file = Text string | Unreadable

text \<open>What \<open>aiofiles.open(path, "w", encoding="utf-8")\<close> followed by \<open>f.write(...)\<close>
  meets: both succeed, the open raises (no permission, no directory), or the open
  succeeds and the write raises (no space left, text that cannot be encoded).\<close>

datatype write_result = WriteOk | OpenRaises exn | WriteRaises exn

text \<open>Observable effects, in the order in which they happen. \<open>Acquire\<close> and
  \<open>Release\<close> are entry to and exit from \<open>async with self.semaphore\<close>; \<open>Get\<close> is one
  \<open>session.get\<close>; \<open>Sleep\<close> is one \<open>asyncio.sleep\<close> with its delay in seconds;
  \<open>Progress\<close> is the progress line; \<open>CreateEpub\<close> is the call of \<open>create_epub\<close>;
  \<open>EpubFile\<close> is the e-book file of a title, with its chapters, appearing in the output
  directory; \<open>Unlink\<close> is \<open>cache_path.unlink()\<close>.\<close>

datatype event =
    Acquire
  | Release
  | Get string
  | Sleep nat
  | Progress nat nat
  | CreateEpub string string string string "item list"
  | EpubFile string "item list"
  | Unlink string

record world =
  files :: "string \<rightharpoonup> cache_file"
  trace :: "event list"

text \<open>Everything the code takes from outside \<open>src/\<close>: the MD5 digest, the cache
  directory (it depends on the home directory), the remote site (the answer to the
  \<open>k\<close>-th request overall, for a URL), the status check of
  \<open>response.raise_for_status()\<close>, the BeautifulSoup pipeline of
  \<open>fetch_chapter_content\<close> (\<open>clean_soup\<close>, \<open>select_one\<close>, \<open>decompose\<close>,
  \<open>decode_contents\<close>: \<open>Inr None\<close> when the content selector matches nothing,
  \<open>Inl\<close> when the parser raises), what writing a text to a path of the cache
  directory meets, whether the e-book library makes \<open>create_epub\<close> raise, whether
  \<open>epub.write_epub\<close> fails to write the file of a title (it reports no failure to its
  caller), and the time at which the task of each batch position finishes.\<close>

record env =
  md5_hexdigest :: "string \<Rightarrow> string"
  CACHE_DIR :: string
  site :: "nat \<Rightarrow> string \<Rightarrow> attempt"
  status_ok :: "nat \<Rightarrow> bool"
  select_content :: "string \<Rightarrow> exn + string option"
  write_outcome :: "string \<Rightarrow> string \<Rightarrow> write_result"
  create_epub_raises :: "string \<Rightarrow> string \<Rightarrow> string \<Rightarrow> string \<Rightarrow> item list \<Rightarrow> bool"
  write_epub_fails :: "string \<Rightarrow> bool"
  finish_time :: "nat \<Rightarrow> nat"

definition log :: "event \<Rightarrow> world \<Rightarrow> world" where
  "log ev w = w\<lparr>trace := trace w @ [ev]\<rparr>"

fun is_get :: "event \<Rightarrow> bool" where
  "is_get (Get u) = True"
| "is_get _ = False"

definition gets :: "event list \<Rightarrow> nat" where
  "gets tr = length (filter is_get tr)"

section \<open>The retrying fetcher (scraper.py, \<open>AsyncScraper._fetch_url\<close>)\<close>

definition session_get :: "env \<Rightarrow> string \<Rightarrow> world \<Rightarrow> attempt \<times> world" where
  "session_get E u w = (site E (gets (trace w)) u, log (Get u) w)"

text \<open>How one iteration of the \<open>for\<close> loop ends.\<close>

datatype 'a flow = Continue | Return 'a

text \<open>The two \<open>except\<close> clauses. They run after the \<open>async with\<close> block has been
  left, so the permit is already released.\<close>

definition handle_exn :: "exn \<Rightarrow> world \<Rightarrow> string option flow \<times> world" where
  "handle_exn e w =
     (if e = RequestsError \<or> e = TimeoutError
      then (Continue, log (Sleep RETRY_DELAY) w)
      else (Return None, w))"

text \<open>The body of the loop for the 0-based \<open>attempt\<close>. On status 429 the sleep is
  inside the \<open>async with\<close> block and \<open>continue\<close> leaves the block afterwards. A failed
  status check raises an \<open>HTTPError\<close>, which is a \<open>RequestsError\<close>.\<close>

definition attempt_body :: "env \<Rightarrow> string \<Rightarrow> nat \<Rightarrow> world \<Rightarrow> string option flow \<times> world" where
  "attempt_body E u attempt w =
     (case session_get E u (log Acquire w) of
        (Raises e, w1) \<Rightarrow> handle_exn e (log Release w1)
      | (Returns r, w1) \<Rightarrow>
          if status_code r = 429
          then (Continue, log Release (log (Sleep (RETRY_DELAY * (attempt + 1))) w1))
          else if \<not> status_ok E (status_code r)
          then handle_exn RequestsError (log Release w1)
          else (Return (Some (text_of r)), log Release w1))"

text \<open>The loop \<open>for attempt in range(...)\<close>, over the attempts still to make; falling
  out of the loop returns \<open>None\<close>.\<close>

fun fetch_attempts :: "env \<Rightarrow> string \<Rightarrow> nat list \<Rightarrow> world \<Rightarrow> string option \<times> world" where
  "fetch_attempts E u [] w = (None, w)"
| "fetch_attempts E u (attempt # rest) w =
     (case attempt_body E u attempt w of
        (Return r, w1) \<Rightarrow> (r, w1)
      | (Continue, w1) \<Rightarrow> fetch_attempts E u rest w1)"

definition fetch_url :: "env \<Rightarrow> string \<Rightarrow> world \<Rightarrow> string option \<times> world" where
  "fetch_url E u w = fetch_attempts E u [0..<MAX_RETRIES] w"

text \<open>The outcome classes of one attempt, as the loop body tells them apart.\<close>

fun succeeds :: "env \<Rightarrow> attempt \<Rightarrow> bool" where
  "succeeds E (Returns r) = (status_code r \<noteq> 429 \<and> status_ok E (status_code r))"
| "succeeds E (Raises e) = False"

fun rate_limited :: "attempt \<Rightarrow> bool" where
  "rate_limited (Returns r) = (status_code r = 429)"
| "rate_limited (Raises e) = False"

fun transient :: "env \<Rightarrow> attempt \<Rightarrow> bool" where
  "transient E (Returns r) = (status_code r \<noteq> 429 \<and> \<not> status_ok E (status_code r))"
| "transient E (Raises e) = (e = RequestsError \<or> e = TimeoutError)"

section \<open>The cache (scraper.py, \<open>_get_cache_path\<close>, \<open>clear_cache_for_url\<close>)\<close>

definition get_cache_path :: "env \<Rightarrow> string \<Rightarrow> string" where
  "get_cache_path E u = CACHE_DIR E @ ''/'' @ md5_hexdigest E u @ ''.html''"

definition clear_cache_for_url :: "env \<Rightarrow> string \<Rightarrow> world \<Rightarrow> world" where
  "clear_cache_for_url E u w =
     (let cache_path = get_cache_path E u in
      if files w cache_path \<noteq> None
      then log (Unlink cache_path) (w\<lparr>files := (files w)(cache_path := None)\<rparr>)
      else w)"

text \<open>Writing an entry is \<open>aiofiles.open(cache_path, "w", encoding="utf-8")\<close>, which
  creates the file at the cache path itself or truncates it, followed by
  \<open>f.write(...)\<close> on the handle, which stands at offset 0 of the empty file.\<close>

definition open_w :: "string \<Rightarrow> world \<Rightarrow> world" where
  "open_w p w = w\<lparr>files := (files w)(p \<mapsto> Text [])\<rparr>"

definition f_write :: "string \<Rightarrow> string \<Rightarrow> world \<Rightarrow> world" where
  "f_write p s w = w\<lparr>files := (files w)(p \<mapsto> Text s)\<rparr>"

definition cache_write :: "string \<Rightarrow> string \<Rightarrow> world \<Rightarrow> world" where
  "cache_write p s w = f_write p s (open_w p w)"

text \<open>The \<open>async with aiofiles.open(cache_path, "w", ...)\<close> block as the environment
  lets it run; it is not inside any \<open>try\<close>, so what it raises leaves the fetch.\<close>

definition cache_store :: "env \<Rightarrow> string \<Rightarrow> string \<Rightarrow> world \<Rightarrow> (exn + unit) \<times> world" where
  "cache_store E p s w =
     (case write_outcome E p s of
        WriteOk \<Rightarrow> (Inr (), cache_write p s w)
      | OpenRaises e \<Rightarrow> (Inl e, w)
      | WriteRaises e \<Rightarrow> (Inl e, open_w p w))"

text \<open>Reading an entry is \<open>aiofiles.open(cache_path, "r", encoding="utf-8")\<close> and
  \<open>f.read()\<close>: text mode with universal newlines, so a carriage return, alone or
  followed by a line feed, is read as one line feed.\<close>

definition CR :: char where
  "CR = CHR 0x0D"

definition LF :: char where
  "LF = CHR 0x0A"

fun universal_newlines :: "string \<Rightarrow> string" where
  "universal_newlines [] = []"
| "universal_newlines [c] = [if c = CR then LF else c]"
| "universal_newlines (c # d # s) =
     (if c = CR \<and> d = LF then LF # universal_newlines s
      else if c = CR then LF # universal_newlines (d # s)
      else c # universal_newlines (d # s))"

section \<open>Cache-backed fetches (scraper.py)\<close>

text \<open>\<open>AsyncScraper.get_cached_or_fetch\<close>. \<open>Inl\<close> is an exception that leaves the
  function: neither the read of an existing entry nor the write of a new one is inside
  any \<open>try\<close>.\<close>

definition get_cached_or_fetch :: "env \<Rightarrow> string \<Rightarrow> world \<Rightarrow> (exn + string) \<times> world" where
  "get_cached_or_fetch E u w =
     (let cache_path = get_cache_path E u in
      case files w cache_path of
        Some (Text c) \<Rightarrow> (Inr (universal_newlines c), w)
      | Some Unreadable \<Rightarrow> (Inl OSError, w)
      | None \<Rightarrow>
          (case fetch_url E u w of
             (Some fetched, w1) \<Rightarrow>
               if fetched \<noteq> []
               then (case cache_store E cache_path fetched w1 of
                       (Inl e, w2) \<Rightarrow> (Inl e, w2)
                     | (Inr ok, w2) \<Rightarrow> (Inr fetched, w2))
               else (Inr [], w1)
           | (None, w1) \<Rightarrow> (Inr [], w1)))"

text \<open>\<open>AsyncScraper.fetch_chapter_content\<close>: \<open>Inr None\<close> is the explicit failure
  signal, \<open>Inl\<close> an exception that leaves the function (from the read of an existing
  entry, from the parser, or from the write of the new entry).\<close>

definition fetch_chapter_content :: "env \<Rightarrow> chapter_ref \<Rightarrow> world \<Rightarrow> (exn + string option) \<times> world" where
  "fetch_chapter_content E ch w =
     (let cache_path = get_cache_path E (url ch) in
      case files w cache_path of
        Some (Text c) \<Rightarrow> (Inr (Some (universal_newlines c)), w)
      | Some Unreadable \<Rightarrow> (Inl OSError, w)
      | None \<Rightarrow>
          (case fetch_url E (url ch) w of
             (None, w1) \<Rightarrow> (Inr None, w1)
           | (Some html, w1) \<Rightarrow>
               if html = [] then (Inr None, w1)
               else (case select_content E html of
                       Inl e \<Rightarrow> (Inl e, w1)
                     | Inr (Some clean_content) \<Rightarrow>
                         (case cache_store E cache_path clean_content w1 of
                            (Inl e, w2) \<Rightarrow> (Inl e, w2)
                          | (Inr ok, w2) \<Rightarrow> (Inr (Some clean_content), w2))
                     | Inr None \<Rightarrow> (Inr None, w1))))"

section \<open>The download workflow (main.py, \<open>download_workflow\<close>)\<close>

text \<open>\<open>chapters[i]\<close> with Python's indexing: a negative index counts from the end, an
  index out of range raises.\<close>

definition py_index :: "'a list \<Rightarrow> int \<Rightarrow> exn + 'a" where
  "py_index xs i =
     (if 0 \<le> i \<and> i < int (length xs) then Inr (xs ! nat i)
      else if i < 0 \<and> - int (length xs) \<le> i then Inr (xs ! nat (int (length xs) + i))
      else Inl IndexError)"

text \<open>\<open>selected_chapters = [chapters[i] for i in indices]\<close>.\<close>

fun select_chapters :: "chapter_ref list \<Rightarrow> int list \<Rightarrow> exn + chapter_ref list" where
  "select_chapters chapters [] = Inr []"
| "select_chapters chapters (i # indices) =
     (case py_index chapters i of
        Inl e \<Rightarrow> Inl e
      | Inr ch \<Rightarrow>
          (case select_chapters chapters indices of
             Inl e \<Rightarrow> Inl e
           | Inr rest \<Rightarrow> Inr (ch # rest)))"

text \<open>The closure \<open>fetch_with_progress\<close>; the state carries its nonlocal
  \<open>completed_count\<close>.\<close>

definition fetch_with_progress ::
  "env \<Rightarrow> nat \<Rightarrow> chapter_ref \<Rightarrow> nat \<times> world \<Rightarrow> (exn + item option) \<times> (nat \<times> world)" where
  "fetch_with_progress E total_count ch st =
     (case st of (completed_count, w) \<Rightarrow>
        (case fetch_chapter_content E ch w of
           (Inl e, w1) \<Rightarrow> (Inl e, (completed_count, w1))
         | (Inr c, w1) \<Rightarrow>
             (Inr (case c of None \<Rightarrow> None
                   | Some text \<Rightarrow> Some \<lparr>title = name ch, content = text\<rparr>),
              (completed_count + 1, log (Progress (completed_count + 1) total_count) w1))))"

text \<open>The tasks of \<open>asyncio.gather(*tasks)\<close>, serialised in the order in which they
  finish: each task runs as a whole, one after another, and each result is kept with
  the batch position of its task. This fixes what \<open>gather\<close> hands to
  \<open>download_workflow\<close> (one result per position, or the first exception of a task);
  it does not reproduce how the requests of different tasks interleave (so not the
  order of the requests, nor two tasks of one URL both missing the cache), and the tasks
  that have not finished when one raises are not followed any further.\<close>

fun run_tasks ::
  "env \<Rightarrow> nat \<Rightarrow> chapter_ref list \<Rightarrow> nat list \<Rightarrow> nat \<times> world
     \<Rightarrow> (exn + (nat \<times> item option) list) \<times> (nat \<times> world)" where
  "run_tasks E total_count sel [] st = (Inr [], st)"
| "run_tasks E total_count sel (i # order) st =
     (case fetch_with_progress E total_count (sel ! i) st of
        (Inl e, st1) \<Rightarrow> (Inl e, st1)
      | (Inr r, st1) \<Rightarrow>
          (case run_tasks E total_count sel order st1 of
             (Inl e, st2) \<Rightarrow> (Inl e, st2)
           | (Inr rs, st2) \<Rightarrow> (Inr ((i, r) # rs), st2)))"

text \<open>\<open>results = await asyncio.gather(*tasks)\<close>: the tasks finish in the order of their
  finish times, and the result list is indexed by batch position.\<close>

definition gather :: "env \<Rightarrow> chapter_ref list \<Rightarrow> world \<Rightarrow> (exn + item option list) \<times> world" where
  "gather E sel w =
     (let total_count = length sel;
          order = sort_key (finish_time E) [0..<total_count]
      in case run_tasks E total_count sel order (0, w) of
           (Inl e, st) \<Rightarrow> (Inl e, snd st)
         | (Inr finished, st) \<Rightarrow>
             (Inr (map (\<lambda>i. the (map_of finished i)) [0..<total_count]), snd st))"

text \<open>Step 3, the loop \<open>for i, res in enumerate(results)\<close> with its two accumulators.\<close>

fun separate ::
  "chapter_ref list \<Rightarrow> (nat \<times> item option) list \<Rightarrow> item list \<Rightarrow> string list
     \<Rightarrow> item list \<times> string list" where
  "separate sel [] downloaded_data failed_chapters = (downloaded_data, failed_chapters)"
| "separate sel ((i, None) # rest) downloaded_data failed_chapters =
     separate sel rest downloaded_data (failed_chapters @ [name (sel ! i)])"
| "separate sel ((i, Some res) # rest) downloaded_data failed_chapters =
     separate sel rest (downloaded_data @ [res]) failed_chapters"

text \<open>\<open>create_epub\<close> (epub_builder.py) as \<open>download_workflow\<close> sees it: it raises,
  or it returns. It ends with \<open>epub.write_epub(...)\<close> and its success line and looks
  at no outcome of the write, so it returns in the same way whether the file was written
  or not.\<close>

definition create_epub ::
  "env \<Rightarrow> string \<Rightarrow> string \<Rightarrow> string \<Rightarrow> string \<Rightarrow> item list \<Rightarrow> world
     \<Rightarrow> (exn + unit) \<times> world" where
  "create_epub E ttl author cover description chapters w =
     (let w1 = log (CreateEpub ttl author cover description chapters) w
      in if create_epub_raises E ttl author cover description chapters
         then (Inl OtherException, w1)
         else if write_epub_fails E ttl then (Inr (), w1)
         else (Inr (), log (EpubFile ttl chapters) w1))"

text \<open>How \<open>download_workflow\<close> ends: nothing selected; an exception of a task; the
  safety stop, with the number of failures and the names the message lists
  (\<open>failed_chapters[:5]\<close>); \<open>create_epub\<close> raised and the exception was reported; or
  \<open>create_epub\<close> returned and the cache was cleaned.\<close>

datatype outcome =
    NoSelection
  | Raised exn
  | Halted nat "string list"
  | PackagingFailed
  | Completed

text \<open>Lines 34 to 97 of \<open>download_workflow\<close>, from the selected chapters on.\<close>

definition download_selected ::
  "env \<Rightarrow> string \<Rightarrow> string \<Rightarrow> string \<Rightarrow> string \<Rightarrow> chapter_ref list \<Rightarrow> world
     \<Rightarrow> outcome \<times> world" where
  "download_selected E ttl author cover description selected_chapters w =
     (if selected_chapters = [] then (NoSelection, w)
      else
        (case gather E selected_chapters w of
           (Inl e, w1) \<Rightarrow> (Raised e, w1)
         | (Inr results, w1) \<Rightarrow>
             (case separate selected_chapters (enumerate 0 results) [] [] of
                (downloaded_data, failed_chapters) \<Rightarrow>
                  if failed_chapters \<noteq> []
                  then (Halted (length failed_chapters) (take 5 failed_chapters), w1)
                  else
                    (case create_epub E ttl author cover description downloaded_data w1 of
                       (Inl e, w2) \<Rightarrow> (PackagingFailed, w2)
                     | (Inr ok, w2) \<Rightarrow>
                         (Completed,
                          foldl (\<lambda>w' ch. clear_cache_for_url E (url ch) w') w2
                            selected_chapters)))))"

text \<open>\<open>download_workflow\<close> with \<open>selection_indices\<close> given (the other branch reads
  the indices from the terminal).\<close>

definition download_workflow ::
  "env \<Rightarrow> string \<Rightarrow> string \<Rightarrow> string \<Rightarrow> string \<Rightarrow> chapter_ref list \<Rightarrow> int list \<Rightarrow> world
     \<Rightarrow> outcome \<times> world" where
  "download_workflow E ttl author cover description chapters selection_indices w =
     (case select_chapters chapters selection_indices of
        Inl e \<Rightarrow> (Raised e, w)
      | Inr selected_chapters \<Rightarrow>
          download_selected E ttl author cover description selected_chapters w)"

section \<open>Concurrent tasks and the permit pool (scraper.py, \<open>__init__\<close> and \<open>_fetch_url\<close>)\<close>

text \<open>Where a task of the batch stands, by the \<open>await\<close> at which it is suspended:
  \<open>Start\<close> before the cache check of \<open>fetch_chapter_content\<close>; \<open>Waiting a\<close> at the
  entry of \<open>async with self.semaphore\<close> for the 0-based attempt \<open>a\<close>; \<open>InFlight a\<close>
  inside the block, at \<open>await session.get(...)\<close>; \<open>Backoff a\<close> inside the block, at
  the \<open>asyncio.sleep\<close> of the 429 branch; \<open>Retrying a\<close> outside the block, at the
  \<open>asyncio.sleep\<close> of the first \<open>except\<close> clause; \<open>Finished\<close> once \<open>_fetch_url\<close>
  has returned or was not needed.\<close>

datatype task = Start | Waiting nat | InFlight nat | Backoff nat | Retrying nat | Finished

fun holds_permit :: "task \<Rightarrow> nat" where
  "holds_permit (InFlight a) = 1"
| "holds_permit (Backoff a) = 1"
| "holds_permit t = 0"

fun awaits_get :: "task \<Rightarrow> nat" where
  "awaits_get (InFlight a) = 1"
| "awaits_get t = 0"

definition permits_held :: "task list \<Rightarrow> nat" where
  "permits_held ts = sum_list (map holds_permit ts)"

text \<open>The number of \<open>session.get\<close> calls that are in flight.\<close>

definition in_flight :: "task list \<Rightarrow> nat" where
  "in_flight ts = sum_list (map awaits_get ts)"

text \<open>The shared state: the value of the semaphore and the tasks of the batch.\<close>

record pool =
  permits :: nat
  tasks :: "task list"

text \<open>One task runs from one suspension point to the next; the first component is the
  value of the semaphore. Entering the block takes a permit and is possible only while
  the value is positive; every way out of the block gives the permit back. The answer
  \<open>r\<close> of the site is arbitrary and is classified as in \<open>attempt_body\<close>.\<close>

inductive task_step :: "env \<Rightarrow> nat \<times> task \<Rightarrow> nat \<times> task \<Rightarrow> bool" for E :: env where
  cache_hit: "task_step E (p, Start) (p, Finished)"
| cache_miss: "task_step E (p, Start) (p, Waiting 0)"
| acquire: "a < MAX_RETRIES \<Longrightarrow> 0 < p \<Longrightarrow> task_step E (p, Waiting a) (p - 1, InFlight a)"
| exhausted: "\<not> a < MAX_RETRIES \<Longrightarrow> task_step E (p, Waiting a) (p, Finished)"
| status_429: "rate_limited r \<Longrightarrow> task_step E (p, InFlight a) (p, Backoff a)"
| backoff_over: "task_step E (p, Backoff a) (p + 1, Waiting (a + 1))"
| network_error: "transient E r \<Longrightarrow> task_step E (p, InFlight a) (p + 1, Retrying a)"
| retry_over: "task_step E (p, Retrying a) (p, Waiting (a + 1))"
| success: "succeeds E r \<Longrightarrow> task_step E (p, InFlight a) (p + 1, Finished)"
| unexpected: "\<not> succeeds E r \<Longrightarrow> \<not> rate_limited r \<Longrightarrow> \<not> transient E r
     \<Longrightarrow> task_step E (p, InFlight a) (p + 1, Finished)"

text \<open>The states that a batch of \<open>M\<close> tasks can reach with a semaphore created with
  \<open>N\<close> permits (\<open>asyncio.Semaphore(MAX_CONCURRENT_REQUESTS)\<close> in the code): all tasks are
  launched together by \<open>asyncio.gather\<close>, and then any task that can run does, in any
  order.\<close>

inductive reachable :: "env \<Rightarrow> nat \<Rightarrow> nat \<Rightarrow> pool \<Rightarrow> bool" for E :: env and N M :: nat where
  launched: "reachable E N M \<lparr>permits = N, tasks = replicate M Start\<rparr>"
| resumed: "reachable E N M s \<Longrightarrow> i < length (tasks s)
     \<Longrightarrow> task_step E (permits s, tasks s ! i) (p', t')
     \<Longrightarrow> reachable E N M \<lparr>permits = p', tasks = (tasks s)[i := t']\<rparr>"

section \<open>Observers of the trace\<close>

text \<open>The events that happened between two worlds of one run.\<close>

definition events_since :: "world \<Rightarrow> world \<Rightarrow> event list" where
  "events_since w w' = drop (length (trace w)) (trace w')"

text \<open>The number of permits held after a run of events, starting with \<open>h\<close> held.\<close>

fun held_after :: "nat \<Rightarrow> event list \<Rightarrow> nat" where
  "held_after h [] = h"
| "held_after h (Acquire # tr) = held_after (Suc h) tr"
| "held_after h (Release # tr) = held_after (h - 1) tr"
| "held_after h (ev # tr) = held_after h tr"

text \<open>The delays of the sleeps made while a permit is held, and of those made while
  none is held.\<close>

fun sleeps_holding :: "nat \<Rightarrow> event list \<Rightarrow> nat list" where
  "sleeps_holding h [] = []"
| "sleeps_holding h (Acquire # tr) = sleeps_holding (Suc h) tr"
| "sleeps_holding h (Release # tr) = sleeps_holding (h - 1) tr"
| "sleeps_holding h (Sleep d # tr) =
     (if 0 < h then d # sleeps_holding h tr else sleeps_holding h tr)"
| "sleeps_holding h (ev # tr) = sleeps_holding h tr"

fun sleeps_released :: "nat \<Rightarrow> event list \<Rightarrow> nat list" where
  "sleeps_released h [] = []"
| "sleeps_released h (Acquire # tr) = sleeps_released (Suc h) tr"
| "sleeps_released h (Release # tr) = sleeps_released (h - 1) tr"
| "sleeps_released h (Sleep d # tr) =
     (if h = 0 then d # sleeps_released h tr else sleeps_released h tr)"
| "sleeps_released h (ev # tr) = sleeps_released h tr"

text \<open>Whether an event is the call of \<open>create_epub\<close>, whether it is the deletion of
  a cache entry, and whether it is an e-book file being written; the events of the
  download phase are none of these.\<close>

fun is_packaging :: "event \<Rightarrow> bool" where
  "is_packaging (CreateEpub t a c d xs) = True"
| "is_packaging ev = False"

fun is_unlink :: "event \<Rightarrow> bool" where
  "is_unlink (Unlink p) = True"
| "is_unlink ev = False"

fun is_epub_file :: "event \<Rightarrow> bool" where
  "is_epub_file (EpubFile t xs) = True"
| "is_epub_file ev = False"

fun fetch_event :: "event \<Rightarrow> bool" where
  "fetch_event (CreateEpub t a c d xs) = False"
| "fetch_event (EpubFile t xs) = False"
| "fetch_event (Unlink p) = False"
| "fetch_event ev = True"

text \<open>The batch positions whose result has content, and those whose result is
  \<open>None\<close>, in batch order.\<close>

definition succeeded_at :: "item option list \<Rightarrow> nat list" where
  "succeeded_at results = filter (\<lambda>i. results ! i \<noteq> None) [0..<length results]"

definition failed_at :: "item option list \<Rightarrow> nat list" where
  "failed_at results = filter (\<lambda>i. results ! i = None) [0..<length results]"

section \<open>Concrete scenarios\<close>

text \<open>An environment around a given site: the digest is the identity, extraction keeps
  the whole page, a status is accepted when it is 2xx, the cache directory and the output
  directory can be written, and the tasks of a batch finish in the reverse of their batch
  order.\<close>

definition env_of :: "(nat \<Rightarrow> string \<Rightarrow> attempt) \<Rightarrow> bool \<Rightarrow> env" where
  "env_of st packaging_raises =
     \<lparr>md5_hexdigest = (\<lambda>u. u), CACHE_DIR = ''.cache'', site = st,
      status_ok = (\<lambda>s. 200 \<le> s \<and> s < 300), select_content = (\<lambda>html. Inr (Some html)),
      write_outcome = (\<lambda>p s. WriteOk),
      create_epub_raises = (\<lambda>t a c d xs. packaging_raises),
      write_epub_fails = (\<lambda>t. False),
      finish_time = (\<lambda>i. 100 - i)\<rparr>"

text \<open>A site that is down: every request raises a connection error.\<close>

definition env_down :: env where
  "env_down = env_of (\<lambda>k u. Raises RequestsError) False"

definition world0 :: world where
  "world0 = \<lparr>files = Map.empty, trace = []\<rparr>"

text \<open>A site that answers 429 to the first two requests and then serves the page.\<close>

definition env_throttled :: env where
  "env_throttled =
     env_of (\<lambda>k u. if k < 2 then Returns (Response 429 ''slow down'')
                     else Returns (Response 200 ''<p>story</p>'')) False"

text \<open>A site that serves every page at the first request.\<close>

definition env_up :: env where
  "env_up = env_of (\<lambda>k u. Returns (Response 200 ''<p>story</p>'')) False"

text \<open>A site on which the request for the second chapter fails fatally.\<close>

definition env_ch2_fatal :: env where
  "env_ch2_fatal =
     env_of (\<lambda>k u. if u = ''ch2'' then Raises OtherException
                     else Returns (Response 200 ''<p>story</p>'')) False"

definition ch1 :: chapter_ref where
  "ch1 = \<lparr>name = ''Chapter 1'', url = ''ch1''\<rparr>"

definition ch2 :: chapter_ref where
  "ch2 = \<lparr>name = ''Chapter 2'', url = ''ch2''\<rparr>"

definition ch3 :: chapter_ref where
  "ch3 = \<lparr>name = ''Chapter 3'', url = ''ch3''\<rparr>"

definition batch3 :: "chapter_ref list" where
  "batch3 = [ch1, ch2, ch3]"



text \<open>A cache whose entry for the first chapter cannot be read.\<close>

definition world_corrupt :: world where
  "world_corrupt = \<lparr>files = [''.cache/ch1.html'' \<mapsto> Unreadable], trace = []\<rparr>"

section \<open>Basic facts about the trace\<close>

lemma gets_append [simp]: "gets (xs @ ys) = gets xs + gets ys"
  by (simp add: gets_def)

lemma gets_simps [simp]:
  "gets [] = 0"
  "gets (ev # tr) = (if is_get ev then Suc (gets tr) else gets tr)"
  by (simp_all add: gets_def)

lemma trace_log [simp]: "trace (log ev w) = trace w @ [ev]"
  by (simp add: log_def)

lemma files_log [simp]: "files (log ev w) = files w"
  by (simp add: log_def)

section \<open>The retry loop\<close>

lemma attempt_body_gets:
  "gets (trace (snd (attempt_body E u a w))) = Suc (gets (trace w))"
  by (simp add: attempt_body_def session_get_def handle_exn_def
      split: attempt.splits prod.splits)

lemma attempt_body_files:
  "files (snd (attempt_body E u a w)) = files w"
  by (simp add: attempt_body_def session_get_def handle_exn_def
      split: attempt.splits prod.splits)

lemma attempt_body_no_success:
  "\<not> succeeds E (site E (gets (trace w)) u) \<Longrightarrow> fst (attempt_body E u a w) \<noteq> Return (Some b)"
  by (auto simp add: attempt_body_def session_get_def handle_exn_def
      split: attempt.splits prod.splits)

lemma attempt_body_transient:
  "transient E (site E (gets (trace w)) u) \<Longrightarrow> fst (attempt_body E u a w) = Continue"
  by (auto simp add: attempt_body_def session_get_def handle_exn_def
      split: attempt.splits prod.splits)

lemma transient_not_succeeds: "transient E a \<Longrightarrow> \<not> succeeds E a"
  by (cases a) auto

lemma fetch_attempts_gets_le:
  "gets (trace (snd (fetch_attempts E u as w))) \<le> gets (trace w) + length as"
proof (induction as arbitrary: w)
  case Nil
  show ?case by simp
next
  case (Cons a as)
  obtain fl w1 where ab: "attempt_body E u a w = (fl, w1)"
    by (cases "attempt_body E u a w")
  have g: "gets (trace w1) = Suc (gets (trace w))"
    using attempt_body_gets [of E u a w] ab by simp
  show ?case
  proof (cases fl)
    case Continue
    with ab g Cons.IH [of w1] show ?thesis by simp
  next
    case (Return r)
    with ab g show ?thesis by simp
  qed
qed

lemma fetch_attempts_no_success:
  "(\<And>k. gets (trace w) \<le> k \<Longrightarrow> k < gets (trace w) + length as
        \<Longrightarrow> \<not> succeeds E (site E k u))
   \<Longrightarrow> fst (fetch_attempts E u as w) = None"
proof (induction as arbitrary: w)
  case Nil
  show ?case by simp
next
  case (Cons a as)
  obtain fl w1 where ab: "attempt_body E u a w = (fl, w1)"
    by (cases "attempt_body E u a w")
  have g: "gets (trace w1) = Suc (gets (trace w))"
    using attempt_body_gets [of E u a w] ab by simp
  have ns: "\<not> succeeds E (site E (gets (trace w)) u)"
    using Cons.prems [of "gets (trace w)"] by simp
  show ?case
  proof (cases fl)
    case Continue
    have "fst (fetch_attempts E u as w1) = None"
      by (rule Cons.IH) (use Cons.prems g in auto)
    with ab Continue show ?thesis by simp
  next
    case (Return r)
    have "r = None"
      using attempt_body_no_success [OF ns, of a] ab Return by (cases r) auto
    with ab Return show ?thesis by simp
  qed
qed

lemma fetch_attempts_transient:
  "(\<And>k. gets (trace w) \<le> k \<Longrightarrow> k < gets (trace w) + length as
        \<Longrightarrow> transient E (site E k u))
   \<Longrightarrow> gets (trace (snd (fetch_attempts E u as w))) = gets (trace w) + length as"
proof (induction as arbitrary: w)
  case Nil
  show ?case by simp
next
  case (Cons a as)
  obtain fl w1 where ab: "attempt_body E u a w = (fl, w1)"
    by (cases "attempt_body E u a w")
  have g: "gets (trace w1) = Suc (gets (trace w))"
    using attempt_body_gets [of E u a w] ab by simp
  have "transient E (site E (gets (trace w)) u)"
    using Cons.prems [of "gets (trace w)"] by simp
  then have fl: "fl = Continue"
    using attempt_body_transient [of E w u a] ab by simp
  have "gets (trace (snd (fetch_attempts E u as w1))) = gets (trace w1) + length as"
    by (rule Cons.IH) (use Cons.prems g in auto)
  with ab fl g show ?case by simp
qed

text \<open>C5. When each of the three requests that \<open>_fetch_url\<close> can make ends in a
  transient error (a connection error, a timeout, or a status that fails the status
  check), \<open>_fetch_url\<close> makes exactly three requests and returns \<open>None\<close>. In general,
  for any retry budget \<open>m\<close>, when none of the next \<open>m\<close> requests succeeds the loop
  returns \<open>None\<close> after at most \<open>m\<close> requests; the result is a value, never an
  exception.\<close>

theorem fetch_url_retry_budget:
  "((\<forall>k. gets (trace w) \<le> k \<and> k < gets (trace w) + MAX_RETRIES
          \<longrightarrow> transient E (site E k u))
      \<longrightarrow> fst (fetch_url E u w) = None
          \<and> gets (trace (snd (fetch_url E u w))) = gets (trace w) + 3)
   \<and> ((\<forall>k. gets (trace w) \<le> k \<and> k < gets (trace w) + m
          \<longrightarrow> \<not> succeeds E (site E k u))
      \<longrightarrow> fst (fetch_attempts E u [0..<m] w) = None
          \<and> gets (trace (snd (fetch_attempts E u [0..<m] w))) \<le> gets (trace w) + m)"
proof (intro conjI impI)
  assume h: "\<forall>k. gets (trace w) \<le> k \<and> k < gets (trace w) + MAX_RETRIES
               \<longrightarrow> transient E (site E k u)"
  have "fst (fetch_attempts E u [0..<MAX_RETRIES] w) = None"
    by (rule fetch_attempts_no_success) (use h transient_not_succeeds in auto)
  then show "fst (fetch_url E u w) = None"
    by (simp add: fetch_url_def)
  have "gets (trace (snd (fetch_attempts E u [0..<MAX_RETRIES] w)))
          = gets (trace w) + length [0..<MAX_RETRIES]"
    by (rule fetch_attempts_transient) (use h in auto)
  then show "gets (trace (snd (fetch_url E u w))) = gets (trace w) + 3"
    by (simp add: fetch_url_def MAX_RETRIES_def)
next
  assume h: "\<forall>k. gets (trace w) \<le> k \<and> k < gets (trace w) + m
               \<longrightarrow> \<not> succeeds E (site E k u)"
  show "fst (fetch_attempts E u [0..<m] w) = None"
    by (rule fetch_attempts_no_success) (use h in auto)
  show "gets (trace (snd (fetch_attempts E u [0..<m] w))) \<le> gets (trace w) + m"
    using fetch_attempts_gets_le [of E u "[0..<m]" w] by simp
qed

theorem fetch_url_retry_budget_witness:
  "fst (fetch_url env_down ''ch1'' world0) = None
   \<and> gets (trace (snd (fetch_url env_down ''ch1'' world0))) = 3
   \<and> fst (fetch_attempts env_down ''ch1'' [0..<7] world0) = None"
  using fetch_url_retry_budget [of world0 env_down "''ch1''" 7]
  by (simp add: env_down_def env_of_def world0_def)

section \<open>Permits and sleeps\<close>

lemma held_after_append: "held_after h (xs @ ys) = held_after (held_after h xs) ys"
  by (induction h xs rule: held_after.induct) auto

lemma sleeps_holding_append:
  "sleeps_holding h (xs @ ys) = sleeps_holding h xs @ sleeps_holding (held_after h xs) ys"
  by (induction h xs rule: sleeps_holding.induct) auto

lemma sleeps_released_append:
  "sleeps_released h (xs @ ys) = sleeps_released h xs @ sleeps_released (held_after h xs) ys"
  by (induction h xs rule: sleeps_released.induct) auto

lemma events_since_append [simp]: "trace w' = trace w @ evs \<Longrightarrow> events_since w w' = evs"
  by (simp add: events_since_def)

text \<open>The three ways an attempt can go, each with the events it adds.\<close>

lemma attempt_body_cases:
  "(rate_limited (site E (gets (trace w)) u) \<and>
      attempt_body E u a w =
        (Continue,
         w\<lparr>trace := trace w @ [Acquire, Get u, Sleep (RETRY_DELAY * (a + 1)), Release]\<rparr>))
   \<or> (transient E (site E (gets (trace w)) u) \<and>
      attempt_body E u a w =
        (Continue, w\<lparr>trace := trace w @ [Acquire, Get u, Release, Sleep RETRY_DELAY]\<rparr>))
   \<or> (\<not> rate_limited (site E (gets (trace w)) u)
       \<and> \<not> transient E (site E (gets (trace w)) u)
       \<and> (\<exists>r. attempt_body E u a w =
              (Return r, w\<lparr>trace := trace w @ [Acquire, Get u, Release]\<rparr>)))"
  by (cases "site E (gets (trace w)) u")
     (auto simp add: attempt_body_def session_get_def handle_exn_def log_def)

lemma fetch_attempts_events:
  "\<exists>evs. snd (fetch_attempts E u as w) = w\<lparr>trace := trace w @ evs\<rparr>
      \<and> held_after 0 evs = 0
      \<and> (\<forall>d \<in> set (sleeps_holding 0 evs). \<exists>a \<in> set as. d = RETRY_DELAY * (a + 1))
      \<and> (sorted_wrt (<) as \<longrightarrow> sorted_wrt (<) (sleeps_holding 0 evs))
      \<and> set (sleeps_released 0 evs) \<subseteq> {RETRY_DELAY}"
proof (induction as arbitrary: w)
  case Nil
  show ?case by (rule exI [of _ "[]"]) simp
next
  case (Cons a as)
  let ?A = "[Acquire, Get u, Sleep (RETRY_DELAY * (a + 1)), Release]"
  let ?B = "[Acquire, Get u, Release, Sleep RETRY_DELAY]"
  let ?C = "[Acquire, Get u, Release]"
  consider
    (limited) "attempt_body E u a w = (Continue, w\<lparr>trace := trace w @ ?A\<rparr>)"
  | (retry) "attempt_body E u a w = (Continue, w\<lparr>trace := trace w @ ?B\<rparr>)"
  | (return) r where "attempt_body E u a w = (Return r, w\<lparr>trace := trace w @ ?C\<rparr>)"
    using attempt_body_cases [of E w u a] by blast
  then show ?case
  proof cases
    case limited
    obtain evs where evs:
        "snd (fetch_attempts E u as (w\<lparr>trace := trace w @ ?A\<rparr>))
          = w\<lparr>trace := trace w @ ?A @ evs\<rparr>"
        "held_after 0 evs = 0"
        "\<forall>d \<in> set (sleeps_holding 0 evs). \<exists>a \<in> set as. d = RETRY_DELAY * (a + 1)"
        "sorted_wrt (<) as \<longrightarrow> sorted_wrt (<) (sleeps_holding 0 evs)"
        "set (sleeps_released 0 evs) \<subseteq> {RETRY_DELAY}"
      using Cons.IH [of "w\<lparr>trace := trace w @ ?A\<rparr>"] by auto
    have sh: "sleeps_holding 0 (?A @ evs) = RETRY_DELAY * (a + 1) # sleeps_holding 0 evs"
      by simp
    have sr: "sleeps_released 0 (?A @ evs) = sleeps_released 0 evs"
      by simp
    have ha: "held_after 0 (?A @ evs) = 0"
      using evs(2) by simp
    have srt: "sorted_wrt (<) (a # as) \<longrightarrow> sorted_wrt (<) (sleeps_holding 0 (?A @ evs))"
    proof
      assume s: "sorted_wrt (<) (a # as)"
      have "\<forall>d \<in> set (sleeps_holding 0 evs). RETRY_DELAY * (a + 1) < d"
      proof
        fix d assume "d \<in> set (sleeps_holding 0 evs)"
        then obtain b where "b \<in> set as" "d = RETRY_DELAY * (b + 1)"
          using evs(3) by blast
        moreover have "a < b" using s \<open>b \<in> set as\<close> by simp
        ultimately show "RETRY_DELAY * (a + 1) < d" by (simp add: RETRY_DELAY_def)
      qed
      with s evs(4) show "sorted_wrt (<) (sleeps_holding 0 (?A @ evs))"
        unfolding sh by simp
    qed
    show ?thesis
      apply (rule exI [of _ "?A @ evs"])
      using limited evs(1,3,5) ha srt unfolding sh sr by auto
  next
    case retry
    obtain evs where evs:
        "snd (fetch_attempts E u as (w\<lparr>trace := trace w @ ?B\<rparr>))
          = w\<lparr>trace := trace w @ ?B @ evs\<rparr>"
        "held_after 0 evs = 0"
        "\<forall>d \<in> set (sleeps_holding 0 evs). \<exists>a \<in> set as. d = RETRY_DELAY * (a + 1)"
        "sorted_wrt (<) as \<longrightarrow> sorted_wrt (<) (sleeps_holding 0 evs)"
        "set (sleeps_released 0 evs) \<subseteq> {RETRY_DELAY}"
      using Cons.IH [of "w\<lparr>trace := trace w @ ?B\<rparr>"] by auto
    have sh: "sleeps_holding 0 (?B @ evs) = sleeps_holding 0 evs"
      by simp
    have sr: "sleeps_released 0 (?B @ evs) = RETRY_DELAY # sleeps_released 0 evs"
      by simp
    have ha: "held_after 0 (?B @ evs) = 0"
      using evs(2) by simp
    show ?thesis
      apply (rule exI [of _ "?B @ evs"])
      using retry evs(1,3,4,5) ha unfolding sh sr by auto
  next
    case return
    show ?thesis
      apply (rule exI [of _ ?C])
      using return by simp
  qed
qed

text \<open>C6, as the spec states it: no permit is held during a backoff sleep. With two
  rate-limited attempts before a success, \<open>_fetch_url\<close> sleeps 2 and then 4 seconds,
  and both sleeps lie between the \<open>Acquire\<close> and the \<open>Release\<close> of their attempt.\<close>

theorem rate_limit_sleep_holds_permit_counterexample:
  "trace (snd (fetch_url env_throttled ''ch1'' world0)) =
     [Acquire, Get ''ch1'', Sleep 2, Release,
      Acquire, Get ''ch1'', Sleep 4, Release,
      Acquire, Get ''ch1'', Release]
   \<and> sleeps_holding 0 (events_since world0 (snd (fetch_url env_throttled ''ch1'' world0)))
       = [2, 4]"
  by code_simp

text \<open>C6, amended. A rate-limited attempt (status 429) sleeps
  \<open>RETRY_DELAY * (attempt + 1)\<close> seconds, where \<open>attempt\<close> counts from 0, while it
  still holds its permit, and releases the permit after the sleep; an attempt that ends in
  a transient error releases the permit first and then sleeps \<open>RETRY_DELAY\<close> seconds.
  Over one call of \<open>_fetch_url\<close> the sleeps made while holding a permit are such
  rate-limit delays and strictly increase, and every sleep made without a permit lasts
  \<open>RETRY_DELAY\<close> seconds.\<close>

theorem rate_limit_backoff:
  "(rate_limited (site E (gets (trace w)) u) \<longrightarrow>
      attempt_body E u a w =
        (Continue,
         w\<lparr>trace := trace w @ [Acquire, Get u, Sleep (RETRY_DELAY * (a + 1)), Release]\<rparr>))
   \<and> (transient E (site E (gets (trace w)) u) \<longrightarrow>
      attempt_body E u a w =
        (Continue, w\<lparr>trace := trace w @ [Acquire, Get u, Release, Sleep RETRY_DELAY]\<rparr>))
   \<and> sorted_wrt (<) (sleeps_holding 0 (events_since w (snd (fetch_url E u w))))
   \<and> (\<forall>d \<in> set (sleeps_holding 0 (events_since w (snd (fetch_url E u w)))).
         \<exists>a < MAX_RETRIES. d = RETRY_DELAY * (a + 1))
   \<and> set (sleeps_released 0 (events_since w (snd (fetch_url E u w)))) \<subseteq> {RETRY_DELAY}"
proof -
  have one: "rate_limited (site E (gets (trace w)) u) \<longrightarrow>
      attempt_body E u a w =
        (Continue,
         w\<lparr>trace := trace w @ [Acquire, Get u, Sleep (RETRY_DELAY * (a + 1)), Release]\<rparr>)"
    using attempt_body_cases [of E w u a]
    by (cases "site E (gets (trace w)) u") auto
  have two: "transient E (site E (gets (trace w)) u) \<longrightarrow>
      attempt_body E u a w =
        (Continue, w\<lparr>trace := trace w @ [Acquire, Get u, Release, Sleep RETRY_DELAY]\<rparr>)"
    using attempt_body_cases [of E w u a]
    by (cases "site E (gets (trace w)) u") auto
  obtain evs where evs:
      "snd (fetch_url E u w) = w\<lparr>trace := trace w @ evs\<rparr>"
      "\<forall>d \<in> set (sleeps_holding 0 evs). \<exists>a \<in> set [0..<MAX_RETRIES]. d = RETRY_DELAY * (a + 1)"
      "sorted_wrt (<) [0..<MAX_RETRIES] \<longrightarrow> sorted_wrt (<) (sleeps_holding 0 evs)"
      "set (sleeps_released 0 evs) \<subseteq> {RETRY_DELAY}"
    using fetch_attempts_events [of E u "[0..<MAX_RETRIES]" w]
    unfolding fetch_url_def by auto
  have since: "events_since w (snd (fetch_url E u w)) = evs"
    using evs(1) by simp
  have three: "sorted_wrt (<) (sleeps_holding 0 evs)"
    using evs(3) by (simp add: sorted_wrt_upt)
  have four: "\<forall>d \<in> set (sleeps_holding 0 evs). \<exists>a < MAX_RETRIES. d = RETRY_DELAY * (a + 1)"
  proof
    fix d assume "d \<in> set (sleeps_holding 0 evs)"
    then obtain a where "a \<in> set [0..<MAX_RETRIES]" "d = RETRY_DELAY * (a + 1)"
      using evs(2) by blast
    then show "\<exists>a < MAX_RETRIES. d = RETRY_DELAY * (a + 1)"
      by (intro exI [of _ a]) simp
  qed
  show ?thesis
    unfolding since using one two three four evs(4) by blast
qed

theorem rate_limit_backoff_witness:
  "rate_limited (site env_throttled (gets (trace world0)) ''ch1'')
   \<and> attempt_body env_throttled ''ch1'' 0 world0 =
       (Continue, world0\<lparr>trace := [Acquire, Get ''ch1'', Sleep 2, Release]\<rparr>)
   \<and> sorted_wrt (<)
       (sleeps_holding 0 (events_since world0 (snd (fetch_url env_throttled ''ch1'' world0))))"
  using rate_limit_backoff [of env_throttled world0 "''ch1''" 0]
  by (simp add: env_throttled_def env_of_def world0_def RETRY_DELAY_def)

section \<open>Cache-backed fetches\<close>

lemma fetch_url_world:
  "\<exists>evs. snd (fetch_url E u w) = w\<lparr>trace := trace w @ evs\<rparr>"
  using fetch_attempts_events [of E u "[0..<MAX_RETRIES]" w]
  unfolding fetch_url_def by blast

lemma fetch_url_files [simp]: "files (snd (fetch_url E u w)) = files w"
  using fetch_url_world [of E u w] by auto

lemma fetch_url_filesD: "fetch_url E u w = (r, w1) \<Longrightarrow> files w1 = files w"
  using fetch_url_files [of E u w] by simp


lemma fetch_attempts_gets_ge:
  "gets (trace w) \<le> gets (trace (snd (fetch_attempts E u as w)))"
proof (induction as arbitrary: w)
  case Nil
  show ?case by simp
next
  case (Cons a as)
  obtain fl w1 where ab: "attempt_body E u a w = (fl, w1)"
    by (cases "attempt_body E u a w")
  have g: "gets (trace w1) = Suc (gets (trace w))"
    using attempt_body_gets [of E u a w] ab by simp
  show ?case
  proof (cases fl)
    case Continue
    with ab g Cons.IH [of w1] show ?thesis by simp
  next
    case (Return r)
    with ab g show ?thesis by simp
  qed
qed

lemma fetch_url_requests:
  "gets (trace w) < gets (trace (snd (fetch_url E u w)))"
proof -
  obtain fl w1 where ab: "attempt_body E u 0 w = (fl, w1)"
    by (cases "attempt_body E u 0 w")
  have g: "gets (trace w1) = Suc (gets (trace w))"
    using attempt_body_gets [of E u 0 w] ab by simp
  have up: "[0..<MAX_RETRIES] = 0 # [1..<MAX_RETRIES]"
    by (simp add: MAX_RETRIES_def upt_rec)
  show ?thesis
  proof (cases fl)
    case Continue
    with ab g fetch_attempts_gets_ge [of w1 E u "[1..<MAX_RETRIES]"] show ?thesis
      unfolding fetch_url_def up by simp
  next
    case (Return r)
    with ab g show ?thesis unfolding fetch_url_def up by simp
  qed
qed

lemma files_cache_write [simp]: "files (cache_write p s w) = (files w)(p \<mapsto> Text s)"
  by (simp add: cache_write_def f_write_def open_w_def)

lemma trace_cache_write [simp]: "trace (cache_write p s w) = trace w"
  by (simp add: cache_write_def f_write_def open_w_def)

lemma cache_store_trace: "cache_store E p s w = (r, w2) \<Longrightarrow> trace w2 = trace w"
  by (auto simp add: cache_store_def open_w_def split: write_result.splits)

lemma cache_store_frame:
  "cache_store E p s w = (r, w2) \<Longrightarrow> q \<noteq> p \<Longrightarrow> files w2 q = files w q"
  by (auto simp add: cache_store_def open_w_def split: write_result.splits)

lemma cache_store_ok:
  "cache_store E p s w = (Inr x, w2) \<Longrightarrow> files w2 = (files w)(p \<mapsto> Text s)"
  by (auto simp add: cache_store_def split: write_result.splits)

lemma cache_store_raises:
  "cache_store E p s w = (Inl e, w2) \<Longrightarrow> write_outcome E p s \<noteq> WriteOk"
  by (auto simp add: cache_store_def split: write_result.splits)

text \<open>Reading with universal newlines leaves no carriage return, and changes nothing
  in a text that has none.\<close>

lemma universal_newlines_no_CR: "CR \<notin> set (universal_newlines s)"
  by (induction s rule: universal_newlines.induct) (auto simp add: CR_def LF_def)

lemma universal_newlines_id: "CR \<notin> set s \<Longrightarrow> universal_newlines s = s"
  by (induction s rule: universal_newlines.induct) auto

lemma universal_newlines_idem [simp]:
  "universal_newlines (universal_newlines s) = universal_newlines s"
  by (rule universal_newlines_id) (rule universal_newlines_no_CR)


lemma fcc_unreadable:
  "files w (get_cache_path E (url ch)) = Some Unreadable
   \<Longrightarrow> fetch_chapter_content E ch w = (Inl OSError, w)"
  by (simp add: fetch_chapter_content_def)

lemma fcc_success_cached:
  "fetch_chapter_content E ch w = (Inr (Some c), w1)
   \<Longrightarrow> \<exists>s. files w1 (get_cache_path E (url ch)) = Some (Text s)
          \<and> universal_newlines s = universal_newlines c"
  by (auto simp add: fetch_chapter_content_def Let_def dest: cache_store_ok
      split: option.splits cache_file.splits prod.splits if_splits sum.splits)


lemma fcc_failure_files:
  "fst (fetch_chapter_content E ch w) = Inr None
   \<Longrightarrow> files (snd (fetch_chapter_content E ch w)) = files w
       \<and> files w (get_cache_path E (url ch)) = None"
  by (auto simp add: fetch_chapter_content_def Let_def dest: fetch_url_filesD
      split: option.splits cache_file.splits prod.splits if_splits sum.splits)

lemma fcc_miss_requests:
  "files w (get_cache_path E (url ch)) = None
   \<Longrightarrow> gets (trace w) < gets (trace (snd (fetch_chapter_content E ch w)))"
  using fetch_url_requests [of w E "url ch"]
  by (auto simp add: fetch_chapter_content_def Let_def dest: cache_store_trace
      split: option.splits cache_file.splits prod.splits if_splits sum.splits)

text \<open>On a miss, an exception comes from the parser or from the cache write, after a
  page was downloaded.\<close>

lemma fcc_miss_raise:
  "files w (get_cache_path E (url ch)) = None
   \<Longrightarrow> fst (fetch_chapter_content E ch w) = Inl e
   \<Longrightarrow> \<exists>html. fst (fetch_url E (url ch) w) = Some html \<and> html \<noteq> []
         \<and> (select_content E html = Inl e
             \<or> (\<exists>c. select_content E html = Inr (Some c)
                    \<and> write_outcome E (get_cache_path E (url ch)) c \<noteq> WriteOk))"
  by (auto simp add: fetch_chapter_content_def Let_def dest: cache_store_raises
      split: option.splits cache_file.splits prod.splits if_splits sum.splits)

text \<open>A fetch never changes or removes an entry that exists.\<close>

lemma fcc_frame:
  "files w q = Some f \<Longrightarrow> files (snd (fetch_chapter_content E ch w)) q = Some f"
proof (cases "q = get_cache_path E (url ch)")
  case True
  assume "files w q = Some f"
  with True show ?thesis
    by (cases f) (simp_all add: fetch_chapter_content_def)
next
  case False
  assume "files w q = Some f"
  with False show ?thesis
    by (auto simp add: fetch_chapter_content_def Let_def cache_store_def open_w_def
        dest: fetch_url_filesD
        split: option.splits cache_file.splits prod.splits if_splits sum.splits
          write_result.splits)
qed


lemma fcc_failure_kinds:
  "files w (get_cache_path E (url ch)) = None
   \<Longrightarrow> fst (fetch_url E (url ch) w) = None
       \<or> (\<exists>html. fst (fetch_url E (url ch) w) = Some html \<and> select_content E html = Inr None)
   \<Longrightarrow> fst (fetch_chapter_content E ch w) = Inr None"
  by (auto simp add: fetch_chapter_content_def Let_def
      split: option.splits cache_file.splits prod.splits if_splits sum.splits)


lemma gcf_unreadable:
  "files w (get_cache_path E u) = Some Unreadable \<Longrightarrow> get_cached_or_fetch E u w = (Inl OSError, w)"
  by (simp add: get_cached_or_fetch_def)



lemma gcf_failure_files:
  "files w (get_cache_path E u) = None \<Longrightarrow> fst (get_cached_or_fetch E u w) = Inr []
   \<Longrightarrow> files (snd (get_cached_or_fetch E u w)) = files w"
  by (auto simp add: get_cached_or_fetch_def Let_def dest: fetch_url_filesD
      split: option.splits cache_file.splits prod.splits if_splits sum.splits)

lemma gcf_miss_requests:
  "files w (get_cache_path E u) = None
   \<Longrightarrow> gets (trace w) < gets (trace (snd (get_cached_or_fetch E u w)))"
  using fetch_url_requests [of w E u]
  by (auto simp add: get_cached_or_fetch_def Let_def dest: cache_store_trace
      split: option.splits cache_file.splits prod.splits if_splits sum.splits)

lemma gcf_miss_raise:
  "files w (get_cache_path E u) = None
   \<Longrightarrow> fst (get_cached_or_fetch E u w) = Inl e
   \<Longrightarrow> \<exists>fetched. fst (fetch_url E u w) = Some fetched \<and> fetched \<noteq> []
         \<and> write_outcome E (get_cache_path E u) fetched \<noteq> WriteOk"
  by (auto simp add: get_cached_or_fetch_def Let_def dest: cache_store_raises
      split: option.splits cache_file.splits prod.splits if_splits sum.splits)





text \<open>C10. A chapter fetch that ends in failure (\<open>_fetch_url\<close> returned \<open>None\<close>
  after its retries or after a fatal error, or the content selector matched nothing)
  leaves every file of the cache as it was, the entry of its URL is still absent, and
  the next fetch of that URL makes a request again. The same holds for a
  \<open>get_cached_or_fetch\<close> that misses and returns the empty string.\<close>

theorem failed_fetch_writes_nothing:
  "(fst (fetch_chapter_content E ch w) = Inr None \<longrightarrow>
      files (snd (fetch_chapter_content E ch w)) = files w
      \<and> files w (get_cache_path E (url ch)) = None
      \<and> gets (trace (snd (fetch_chapter_content E ch w)))
          < gets (trace (snd (fetch_chapter_content E ch
                                 (snd (fetch_chapter_content E ch w))))))
   \<and> (files w (get_cache_path E (url ch)) = None
       \<and> (fst (fetch_url E (url ch) w) = None
           \<or> (\<exists>html. fst (fetch_url E (url ch) w) = Some html
                  \<and> select_content E html = Inr None)) \<longrightarrow>
      fst (fetch_chapter_content E ch w) = Inr None)
   \<and> (files w (get_cache_path E u) = None \<and> fst (get_cached_or_fetch E u w) = Inr [] \<longrightarrow>
      files (snd (get_cached_or_fetch E u w)) = files w
      \<and> gets (trace (snd (get_cached_or_fetch E u w)))
          < gets (trace (snd (get_cached_or_fetch E u (snd (get_cached_or_fetch E u w))))))"
proof (intro conjI impI)
  assume a: "fst (fetch_chapter_content E ch w) = Inr None"
  show f: "files (snd (fetch_chapter_content E ch w)) = files w"
    and n: "files w (get_cache_path E (url ch)) = None"
    using fcc_failure_files [OF a] by simp_all
  show "gets (trace (snd (fetch_chapter_content E ch w)))
          < gets (trace (snd (fetch_chapter_content E ch
                                 (snd (fetch_chapter_content E ch w)))))"
    by (rule fcc_miss_requests) (simp add: f n)
next
  assume "files w (get_cache_path E (url ch)) = None
       \<and> (fst (fetch_url E (url ch) w) = None
           \<or> (\<exists>html. fst (fetch_url E (url ch) w) = Some html
                  \<and> select_content E html = Inr None))"
  then show "fst (fetch_chapter_content E ch w) = Inr None"
    using fcc_failure_kinds by blast
next
  assume a: "files w (get_cache_path E u) = None \<and> fst (get_cached_or_fetch E u w) = Inr []"
  then show f: "files (snd (get_cached_or_fetch E u w)) = files w"
    using gcf_failure_files by blast
  show "gets (trace (snd (get_cached_or_fetch E u w)))
          < gets (trace (snd (get_cached_or_fetch E u (snd (get_cached_or_fetch E u w)))))"
    by (rule gcf_miss_requests) (simp add: f a)
qed

lemma down1: "fst (fetch_chapter_content env_down ch1 world0) = Inr None"
  by code_simp

theorem failed_fetch_writes_nothing_witness:
  "fst (fetch_chapter_content env_down ch1 world0) = Inr None
   \<and> files (snd (fetch_chapter_content env_down ch1 world0)) = files world0
   \<and> gets (trace (snd (fetch_chapter_content env_down ch1 world0)))
       < gets (trace (snd (fetch_chapter_content env_down ch1
                              (snd (fetch_chapter_content env_down ch1 world0)))))"
  using failed_fetch_writes_nothing [of env_down ch1 world0] down1
  by simp





section \<open>The tasks of a batch\<close>

lemma fetch_event_iff:
  "fetch_event ev = (\<not> is_packaging ev \<and> \<not> is_unlink ev \<and> \<not> is_epub_file ev)"
  by (cases ev) simp_all

lemma fetch_attempts_fetch_events:
  "\<exists>evs. snd (fetch_attempts E u as w) = w\<lparr>trace := trace w @ evs\<rparr> \<and> list_all fetch_event evs"
proof (induction as arbitrary: w)
  case Nil
  show ?case by (rule exI [of _ "[]"]) simp
next
  case (Cons a as)
  let ?A = "[Acquire, Get u, Sleep (RETRY_DELAY * (a + 1)), Release]"
  let ?B = "[Acquire, Get u, Release, Sleep RETRY_DELAY]"
  let ?C = "[Acquire, Get u, Release]"
  consider
    (limited) "attempt_body E u a w = (Continue, w\<lparr>trace := trace w @ ?A\<rparr>)"
  | (retry) "attempt_body E u a w = (Continue, w\<lparr>trace := trace w @ ?B\<rparr>)"
  | (return) r where "attempt_body E u a w = (Return r, w\<lparr>trace := trace w @ ?C\<rparr>)"
    using attempt_body_cases [of E w u a] by blast
  then show ?case
  proof cases
    case limited
    obtain evs where "snd (fetch_attempts E u as (w\<lparr>trace := trace w @ ?A\<rparr>))
          = w\<lparr>trace := trace w @ ?A @ evs\<rparr>" "list_all fetch_event evs"
      using Cons.IH [of "w\<lparr>trace := trace w @ ?A\<rparr>"] by auto
    with limited show ?thesis
      by (intro exI [of _ "?A @ evs"]) simp
  next
    case retry
    obtain evs where "snd (fetch_attempts E u as (w\<lparr>trace := trace w @ ?B\<rparr>))
          = w\<lparr>trace := trace w @ ?B @ evs\<rparr>" "list_all fetch_event evs"
      using Cons.IH [of "w\<lparr>trace := trace w @ ?B\<rparr>"] by auto
    with retry show ?thesis
      by (intro exI [of _ "?B @ evs"]) simp
  next
    case return
    then show ?thesis
      by (intro exI [of _ ?C]) simp
  qed
qed

lemma fetch_url_traceD:
  "fetch_url E u w = (r, w1) \<Longrightarrow> \<exists>evs. trace w1 = trace w @ evs \<and> list_all fetch_event evs"
  using fetch_attempts_fetch_events [of E u "[0..<MAX_RETRIES]" w]
  by (auto simp add: fetch_url_def)

lemma fcc_trace:
  "\<exists>evs. trace (snd (fetch_chapter_content E ch w)) = trace w @ evs \<and> list_all fetch_event evs"
  by (auto simp add: fetch_chapter_content_def Let_def cache_store_def open_w_def
      dest: fetch_url_traceD
      split: option.splits cache_file.splits prod.splits if_splits sum.splits
        write_result.splits)

lemma fwp_unreadable:
  "files (snd st) (get_cache_path E (url ch)) = Some Unreadable
   \<Longrightarrow> fst (fetch_with_progress E n ch st) = Inl OSError"
  by (cases st) (simp add: fetch_with_progress_def fcc_unreadable)

lemma fwp_frame:
  "files (snd st) q = Some f \<Longrightarrow> files (snd (snd (fetch_with_progress E n ch st))) q = Some f"
  using fcc_frame [of "snd st" q f E ch]
  by (cases st) (auto simp add: fetch_with_progress_def split: prod.splits sum.splits)

lemma fwp_trace:
  "\<exists>evs. trace (snd (snd (fetch_with_progress E n ch st))) = trace (snd st) @ evs
      \<and> list_all fetch_event evs"
proof -
  obtain k w where st: "st = (k, w)" by (cases st)
  obtain evs where evs: "trace (snd (fetch_chapter_content E ch w)) = trace w @ evs"
      "list_all fetch_event evs"
    using fcc_trace [of E ch w] by blast
  obtain r w1 where f: "fetch_chapter_content E ch w = (r, w1)"
    by (cases "fetch_chapter_content E ch w")
  show ?thesis
  proof (cases r)
    case (Inl e)
    with st f evs show ?thesis
      by (intro exI [of _ evs]) (simp add: fetch_with_progress_def)
  next
    case (Inr c)
    with st f evs show ?thesis
      by (intro exI [of _ "evs @ [Progress (k + 1) n]"])
         (simp add: fetch_with_progress_def)
  qed
qed

lemma fwp_success:
  "fetch_with_progress E n ch st = (Inr (Some it), st1)
   \<Longrightarrow> title it = name ch
       \<and> (\<exists>s. files (snd st1) (get_cache_path E (url ch)) = Some (Text s)
              \<and> universal_newlines s = universal_newlines (content it))"
  by (cases st)
     (auto simp add: fetch_with_progress_def dest: fcc_success_cached
       split: prod.splits sum.splits option.splits)

lemma run_tasks_positions:
  "run_tasks E n sel order st = (Inr finished, st') \<Longrightarrow> map fst finished = order"
proof (induction order arbitrary: st finished)
  case Nil
  then show ?case by simp
next
  case (Cons i order)
  then show ?case
    by (auto split: prod.splits sum.splits)
qed

lemma run_tasks_frame:
  "files (snd st) q = Some f \<Longrightarrow> files (snd (snd (run_tasks E n sel order st))) q = Some f"
proof (induction order arbitrary: st)
  case Nil
  then show ?case by simp
next
  case (Cons i order)
  obtain r st1 where f: "fetch_with_progress E n (sel ! i) st = (r, st1)"
    by (cases "fetch_with_progress E n (sel ! i) st")
  have s1: "files (snd st1) q = Some f"
    using fwp_frame [OF Cons.prems, of E n "sel ! i"] f by simp
  show ?case
  proof (cases r)
    case (Inl e)
    with f s1 show ?thesis by simp
  next
    case (Inr x)
    with f Cons.IH [OF s1] show ?thesis
      by (auto split: prod.splits sum.splits)
  qed
qed

lemma run_tasks_trace:
  "\<exists>evs. trace (snd (snd (run_tasks E n sel order st))) = trace (snd st) @ evs
      \<and> list_all fetch_event evs"
proof (induction order arbitrary: st)
  case Nil
  show ?case by simp
next
  case (Cons i order)
  obtain r st1 where f: "fetch_with_progress E n (sel ! i) st = (r, st1)"
    by (cases "fetch_with_progress E n (sel ! i) st")
  obtain evs where evs: "trace (snd st1) = trace (snd st) @ evs" "list_all fetch_event evs"
    using fwp_trace [of E n "sel ! i" st] f by auto
  show ?case
  proof (cases r)
    case (Inl e)
    with f evs show ?thesis by auto
  next
    case (Inr x)
    obtain evs2 where evs2:
        "trace (snd (snd (run_tasks E n sel order st1))) = trace (snd st1) @ evs2"
        "list_all fetch_event evs2"
      using Cons.IH [of st1] by blast
    show ?thesis
      apply (rule exI [of _ "evs @ evs2"])
      using Inr f evs evs2 by (auto split: prod.splits sum.splits)
  qed
qed

lemma run_tasks_results:
  "run_tasks E n sel order st = (Inr finished, st')
   \<Longrightarrow> (i, Some it) \<in> set finished
   \<Longrightarrow> title it = name (sel ! i)
       \<and> (\<exists>s. files (snd st') (get_cache_path E (url (sel ! i))) = Some (Text s)
              \<and> universal_newlines s = universal_newlines (content it))"
proof (induction order arbitrary: st finished)
  case Nil
  then show ?case by simp
next
  case (Cons j order)
  obtain r st1 where f: "fetch_with_progress E n (sel ! j) st = (r, st1)"
    by (cases "fetch_with_progress E n (sel ! j) st")
  from Cons.prems(1) f obtain x rs where
      r: "r = Inr x" and rest: "run_tasks E n sel order st1 = (Inr rs, st')"
      and fin: "finished = (j, x) # rs"
    by (auto split: prod.splits sum.splits)
  from Cons.prems(2) fin consider (head) "i = j" "x = Some it" | (tail) "(i, Some it) \<in> set rs"
    by auto
  then show ?case
  proof cases
    case head
    obtain s where h: "title it = name (sel ! j)"
        "files (snd st1) (get_cache_path E (url (sel ! j))) = Some (Text s)"
        "universal_newlines s = universal_newlines (content it)"
      using fwp_success f r head by blast
    have "files (snd (snd (run_tasks E n sel order st1))) (get_cache_path E (url (sel ! j)))
        = Some (Text s)"
      using h(2) by (rule run_tasks_frame)
    with h head rest show ?thesis by simp
  next
    case tail
    then show ?thesis using Cons.IH [OF rest] by blast
  qed
qed

lemma run_tasks_unreadable:
  "\<exists>i \<in> set order. files (snd st) (get_cache_path E (url (sel ! i))) = Some Unreadable
   \<Longrightarrow> \<exists>e. fst (run_tasks E n sel order st) = Inl e"
proof (induction order arbitrary: st)
  case Nil
  then show ?case by simp
next
  case (Cons j order)
  obtain r st1 where f: "fetch_with_progress E n (sel ! j) st = (r, st1)"
    by (cases "fetch_with_progress E n (sel ! j) st")
  show ?case
  proof (cases r)
    case (Inl e)
    with f show ?thesis by simp
  next
    case (Inr x)
    have nj: "files (snd st) (get_cache_path E (url (sel ! j))) \<noteq> Some Unreadable"
      using fwp_unreadable [of st E "sel ! j" n] f Inr by auto
    then obtain i where i: "i \<in> set order"
        "files (snd st) (get_cache_path E (url (sel ! i))) = Some Unreadable"
      using Cons.prems by auto
    have "files (snd st1) (get_cache_path E (url (sel ! i))) = Some Unreadable"
      using fwp_frame [OF i(2), of E n "sel ! j"] f by simp
    with i(1) have "\<exists>e. fst (run_tasks E n sel order st1) = Inl e"
      by (intro Cons.IH) blast
    with f Inr show ?thesis by (auto split: prod.splits sum.splits)
  qed
qed

lemma order_set [simp]: "set (sort_key f [0..<n]) = {0..<n}"
  by simp

lemma gather_results:
  assumes "gather E sel w = (Inr results, w1)"
  shows "length results = length sel"
    and "i < length sel \<Longrightarrow> results ! i = Some it
         \<Longrightarrow> title it = name (sel ! i)
           \<and> (\<exists>s. files w1 (get_cache_path E (url (sel ! i))) = Some (Text s)
                  \<and> universal_newlines s = universal_newlines (content it))"
proof -
  let ?order = "sort_key (finish_time E) [0..<length sel]"
  obtain r st where rt: "run_tasks E (length sel) sel ?order (0, w) = (r, st)"
    by (cases "run_tasks E (length sel) sel ?order (0, w)")
  from assms rt obtain finished where
      r: "r = Inr finished" and w1: "w1 = snd st"
      and res: "results = map (\<lambda>i. the (map_of finished i)) [0..<length sel]"
    by (auto simp add: gather_def Let_def split: sum.splits)
  show "length results = length sel" using res by simp
  assume i: "i < length sel" and ri: "results ! i = Some it"
  have pos: "map fst finished = ?order"
    using run_tasks_positions rt r by blast
  have "i \<in> set (map fst finished)"
    unfolding pos using i by simp
  then obtain x where x: "map_of finished i = Some x"
    by (metis map_of_eq_None_iff not_Some_eq set_map)
  have "results ! i = x" using res i x by simp
  with ri x have "(i, Some it) \<in> set finished"
    by (auto dest: map_of_SomeD)
  then show "title it = name (sel ! i)
           \<and> (\<exists>s. files w1 (get_cache_path E (url (sel ! i))) = Some (Text s)
                  \<and> universal_newlines s = universal_newlines (content it))"
    using run_tasks_results [of E "length sel" sel ?order "(0, w)" finished st i it] rt r w1
    by simp
qed


lemma gather_trace:
  "\<exists>evs. trace (snd (gather E sel w)) = trace w @ evs \<and> list_all fetch_event evs"
  using run_tasks_trace [of E "length sel" sel
      "sort_key (finish_time E) [0..<length sel]" "(0, w)"]
  by (auto simp add: gather_def Let_def split: sum.splits prod.splits)

lemma gather_unreadable:
  assumes "ch \<in> set sel" "files w (get_cache_path E (url ch)) = Some Unreadable"
  shows "\<exists>e. fst (gather E sel w) = Inl e"
proof -
  obtain i where i: "i < length sel" "sel ! i = ch"
    using assms(1) by (auto simp add: in_set_conv_nth)
  have "\<exists>i \<in> set (sort_key (finish_time E) [0..<length sel]).
      files (snd (0::nat, w)) (get_cache_path E (url (sel ! i))) = Some Unreadable"
    using i assms(2) by auto
  then have "\<exists>e. fst (run_tasks E (length sel) sel
      (sort_key (finish_time E) [0..<length sel]) (0, w)) = Inl e"
    by (rule run_tasks_unreadable)
  then show ?thesis
    by (auto simp add: gather_def Let_def split: sum.splits prod.splits)
qed

lemma separate_eq:
  "separate sel ps dl fl =
     (dl @ map (\<lambda>p. the (snd p)) (filter (\<lambda>p. snd p \<noteq> None) ps),
      fl @ map (\<lambda>p. name (sel ! fst p)) (filter (\<lambda>p. snd p = None) ps))"
  by (induction sel ps dl fl rule: separate.induct) auto

lemma enumerate_nth: "enumerate 0 xs = map (\<lambda>i. (i, xs ! i)) [0..<length xs]"
  by (rule nth_equalityI) (simp_all add: nth_enumerate_eq)

lemma separate_results:
  "separate sel (enumerate 0 results) [] [] =
     (map (\<lambda>i. the (results ! i)) (succeeded_at results),
      map (\<lambda>i. name (sel ! i)) (failed_at results))"
  by (simp add: separate_eq enumerate_nth filter_map comp_def succeeded_at_def failed_at_def)

lemma failed_at_empty: "(failed_at results = []) = (\<forall>i < length results. results ! i \<noteq> None)"
  by (auto simp add: failed_at_def filter_empty_conv)

lemma succeeded_at_all:
  "failed_at results = [] \<Longrightarrow> succeeded_at results = [0..<length results]"
  by (auto simp add: failed_at_def succeeded_at_def filter_empty_conv)

lemma clear_all:
  "\<exists>us. trace (foldl (\<lambda>w' ch. clear_cache_for_url E (url ch) w') w sel) = trace w @ us
     \<and> list_all is_unlink us
     \<and> (\<forall>ch \<in> set sel. files (foldl (\<lambda>w' ch. clear_cache_for_url E (url ch) w') w sel)
            (get_cache_path E (url ch)) = None)
     \<and> (\<forall>q. files w q = None
            \<longrightarrow> files (foldl (\<lambda>w' ch. clear_cache_for_url E (url ch) w') w sel) q = None)"
proof (induction sel arbitrary: w)
  case Nil
  show ?case by simp
next
  case (Cons c sel)
  let ?w1 = "clear_cache_for_url E (url c) w"
  let ?F = "\<lambda>w. foldl (\<lambda>w' ch. clear_cache_for_url E (url ch) w') w sel"
  obtain u1 where u1: "trace ?w1 = trace w @ u1" "list_all is_unlink u1"
      "files ?w1 (get_cache_path E (url c)) = None"
      "\<forall>q. files w q = None \<longrightarrow> files ?w1 q = None"
    by (cases "files w (get_cache_path E (url c)) = None")
       (auto simp add: clear_cache_for_url_def Let_def)
  obtain us where us: "trace (?F ?w1) = trace ?w1 @ us" "list_all is_unlink us"
      "\<forall>ch \<in> set sel. files (?F ?w1) (get_cache_path E (url ch)) = None"
      "\<forall>q. files ?w1 q = None \<longrightarrow> files (?F ?w1) q = None"
    using Cons.IH [of ?w1] by blast
  show ?case
    apply (rule exI [of _ "u1 @ us"])
    using u1 us by auto
qed

section \<open>The completion policy\<close>

lemma map_upt_nth: "map (\<lambda>i. f (xs ! i)) [0..<length xs] = map f xs"
  by (rule nth_equalityI) simp_all

lemma filter_fetch_events:
  "list_all fetch_event evs
   \<Longrightarrow> filter is_packaging evs = [] \<and> filter is_unlink evs = [] \<and> filter is_epub_file evs = []"
  by (induction evs) (auto simp add: fetch_event_iff)

lemma filter_unlinks:
  "list_all is_unlink us \<Longrightarrow> filter is_packaging us = [] \<and> filter is_epub_file us = []"
proof (induction us)
  case Nil
  show ?case by simp
next
  case (Cons ev us)
  then show ?case by (cases ev) simp_all
qed

text \<open>The two ways in which \<open>create_epub\<close> ends, with the events it adds.\<close>

lemma create_epub_cases:
  "create_epub E t a c d dl w =
     (if create_epub_raises E t a c d dl
      then (Inl OtherException, log (CreateEpub t a c d dl) w)
      else (Inr (),
            w\<lparr>trace := trace w
                 @ CreateEpub t a c d dl # (if write_epub_fails E t then [] else [EpubFile t dl])\<rparr>))"
  by (simp add: create_epub_def log_def Let_def)

text \<open>What a run of \<open>download_selected\<close> on a non-empty batch with results does.\<close>

lemma download_selected_run:
  assumes ne: "sel \<noteq> []"
    and g: "gather E sel w = (Inr results, w1)"
    and s: "separate sel (enumerate 0 results) [] [] = (dl, fl)"
    and d: "download_selected E t a c d sel w = (out, w')"
  shows "\<exists>evs. trace w1 = trace w @ evs \<and> list_all fetch_event evs
      \<and> (if fl \<noteq> [] then out = Halted (length fl) (take 5 fl) \<and> w' = w1
          else if create_epub_raises E t a c d dl
          then out = PackagingFailed \<and> w' = log (CreateEpub t a c d dl) w1
          else out = Completed
             \<and> (\<exists>us. trace w' = trace w1
                        @ CreateEpub t a c d dl
                          # (if write_epub_fails E t then [] else [EpubFile t dl]) @ us
                    \<and> list_all is_unlink us)
             \<and> (\<forall>ch \<in> set sel. files w' (get_cache_path E (url ch)) = None))"
proof -
  obtain evs where evs: "trace w1 = trace w @ evs" "list_all fetch_event evs"
    using gather_trace [of E sel w] g by auto
  let ?saved = "if write_epub_fails E t then [] else [EpubFile t dl]"
  let ?w2 = "w1\<lparr>trace := trace w1 @ CreateEpub t a c d dl # ?saved\<rparr>"
  obtain us where us:
      "trace (foldl (\<lambda>w' ch. clear_cache_for_url E (url ch) w') ?w2 sel) = trace ?w2 @ us"
      "list_all is_unlink us"
      "\<forall>ch \<in> set sel. files (foldl (\<lambda>w' ch. clear_cache_for_url E (url ch) w') ?w2 sel)
            (get_cache_path E (url ch)) = None"
    using clear_all [of E ?w2 sel] by blast
  show ?thesis
  proof (cases "fl \<noteq> []")
    case True
    with evs ne g s d show ?thesis
      by (intro exI [of _ evs]) (simp add: download_selected_def)
  next
    case False
    show ?thesis
    proof (cases "create_epub_raises E t a c d dl")
      case True
      with False evs ne g s d show ?thesis
        by (intro exI [of _ evs]) (simp add: download_selected_def create_epub_cases)
    next
      case nr: False
      have out: "out = Completed"
        and w': "w' = foldl (\<lambda>w' ch. clear_cache_for_url E (url ch) w') ?w2 sel"
        using False nr ne g s d by (simp_all add: download_selected_def create_epub_cases)
      have "trace w' = trace w1 @ CreateEpub t a c d dl # ?saved @ us"
        using us(1) w' by simp
      with False nr evs out us(2,3) w' show ?thesis
        by (intro exI [of _ evs]) auto
    qed
  qed
qed

text \<open>C1, as the spec states it: for every batch, packaging is invoked if and only if
  the failed set is empty. For the empty selection the failed set is empty and
  \<open>download_workflow\<close> returns at its guard without calling \<open>create_epub\<close>.\<close>

theorem empty_batch_counterexample:
  "separate [] (enumerate 0 []) [] [] = ([], [])
   \<and> download_selected env_up ''Book'' ''Author'' ''cover'' ''about'' [] world0
       = (NoSelection, world0)
   \<and> download_workflow env_up ''Book'' ''Author'' ''cover'' ''about'' [ch1] [] world0
       = (NoSelection, world0)"
  by (simp add: download_selected_def download_workflow_def)

text \<open>C1, amended. For every non-empty batch whose tasks all return a result,
  \<open>create_epub\<close> is called if and only if the failed set is empty, and then once, with
  the ordered content list of all results. The failed set is non-empty exactly when some
  result has no content; it names the chapters of those positions; the batch is then
  halted with no packaging, and the halt lists the first five of these names.\<close>

theorem packaging_gate:
  "selected_chapters \<noteq> []
   \<and> gather E selected_chapters w = (Inr results, w1)
   \<and> separate selected_chapters (enumerate 0 results) [] [] = (downloaded_data, failed_chapters)
   \<and> download_selected E t a c d selected_chapters w = (out, w')
   \<longrightarrow>
     filter is_packaging (events_since w w')
       = (if failed_chapters = [] then [CreateEpub t a c d downloaded_data] else [])
     \<and> (failed_chapters \<noteq> [] \<longleftrightarrow> (\<exists>i < length results. results ! i = None))
     \<and> failed_chapters = map (\<lambda>i. name (selected_chapters ! i)) (failed_at results)
     \<and> (failed_chapters \<noteq> [] \<longrightarrow>
          out = Halted (length failed_chapters) (take 5 failed_chapters) \<and> w' = w1)
     \<and> (failed_chapters = [] \<longrightarrow>
          downloaded_data = map the results
          \<and> (out = Completed \<or> out = PackagingFailed))"
proof
  assume asm: "selected_chapters \<noteq> []
   \<and> gather E selected_chapters w = (Inr results, w1)
   \<and> separate selected_chapters (enumerate 0 results) [] [] = (downloaded_data, failed_chapters)
   \<and> download_selected E t a c d selected_chapters w = (out, w')"
  then have ne: "selected_chapters \<noteq> []"
    and g: "gather E selected_chapters w = (Inr results, w1)"
    and s: "separate selected_chapters (enumerate 0 results) [] [] = (downloaded_data, failed_chapters)"
    and d: "download_selected E t a c d selected_chapters w = (out, w')"
    by simp_all
  have dl: "downloaded_data = map (\<lambda>i. the (results ! i)) (succeeded_at results)"
    and fl: "failed_chapters = map (\<lambda>i. name (selected_chapters ! i)) (failed_at results)"
    using s by (simp_all add: separate_results)
  obtain evs where evs: "trace w1 = trace w @ evs" "list_all fetch_event evs"
    and shape: "if failed_chapters \<noteq> []
          then out = Halted (length failed_chapters) (take 5 failed_chapters) \<and> w' = w1
          else if create_epub_raises E t a c d downloaded_data
          then out = PackagingFailed \<and> w' = log (CreateEpub t a c d downloaded_data) w1
          else out = Completed
             \<and> (\<exists>us. trace w' = trace w1
                        @ CreateEpub t a c d downloaded_data
                          # (if write_epub_fails E t then [] else [EpubFile t downloaded_data])
                          @ us
                    \<and> list_all is_unlink us)
             \<and> (\<forall>ch \<in> set selected_chapters. files w' (get_cache_path E (url ch)) = None)"
    using download_selected_run [OF ne g s d] by blast
  have nofetch: "filter is_packaging evs = []"
    using filter_fetch_events [OF evs(2)] by simp
  have one: "filter is_packaging (events_since w w')
       = (if failed_chapters = [] then [CreateEpub t a c d downloaded_data] else [])"
  proof (cases "failed_chapters = []")
    case False
    with shape have "trace w' = trace w @ evs" using evs by simp
    then have "events_since w w' = evs" by simp
    with nofetch False show ?thesis by simp
  next
    case True
    show ?thesis
    proof (cases "create_epub_raises E t a c d downloaded_data")
      case True
      with shape \<open>failed_chapters = []\<close>
      have "trace w' = trace w @ (evs @ [CreateEpub t a c d downloaded_data])"
        using evs by simp
      then have "events_since w w' = evs @ [CreateEpub t a c d downloaded_data]"
        by (rule events_since_append)
      with nofetch \<open>failed_chapters = []\<close> show ?thesis by simp
    next
      case False
      let ?saved = "if write_epub_fails E t then [] else [EpubFile t downloaded_data]"
      from False shape \<open>failed_chapters = []\<close> obtain us where
          us: "trace w' = trace w1 @ CreateEpub t a c d downloaded_data # ?saved @ us"
              "list_all is_unlink us"
        by auto
      have "trace w' = trace w @ (evs @ CreateEpub t a c d downloaded_data # ?saved @ us)"
        using us(1) evs by simp
      then have "events_since w w' = evs @ CreateEpub t a c d downloaded_data # ?saved @ us"
        by (rule events_since_append)
      with nofetch filter_unlinks [OF us(2)] \<open>failed_chapters = []\<close> show ?thesis by simp
    qed
  qed
  have two: "failed_chapters \<noteq> [] \<longleftrightarrow> (\<exists>i < length results. results ! i = None)"
    using fl failed_at_empty [of results] by auto
  have three: "failed_chapters \<noteq> [] \<longrightarrow>
          out = Halted (length failed_chapters) (take 5 failed_chapters) \<and> w' = w1"
    using shape by simp
  have four: "failed_chapters = [] \<longrightarrow>
          downloaded_data = map the results \<and> (out = Completed \<or> out = PackagingFailed)"
  proof
    assume e: "failed_chapters = []"
    then have "failed_at results = []" using fl by simp
    then have "succeeded_at results = [0..<length results]" by (rule succeeded_at_all)
    then have "downloaded_data = map the results"
      using dl by (simp add: map_upt_nth)
    with shape e show "downloaded_data = map the results \<and> (out = Completed \<or> out = PackagingFailed)"
      by (auto split: if_splits)
  qed
  show "filter is_packaging (events_since w w')
       = (if failed_chapters = [] then [CreateEpub t a c d downloaded_data] else [])
     \<and> (failed_chapters \<noteq> [] \<longleftrightarrow> (\<exists>i < length results. results ! i = None))
     \<and> failed_chapters = map (\<lambda>i. name (selected_chapters ! i)) (failed_at results)
     \<and> (failed_chapters \<noteq> [] \<longrightarrow>
          out = Halted (length failed_chapters) (take 5 failed_chapters) \<and> w' = w1)
     \<and> (failed_chapters = [] \<longrightarrow>
          downloaded_data = map the results
          \<and> (out = Completed \<or> out = PackagingFailed))"
    using one two fl three four by blast
qed




text \<open>C4, as the spec states it: every input batch is split into a succeeded and a
  failed set. A batch with a cache entry that cannot be read is not split at all: the
  task of that chapter raises, \<open>gather\<close> raises, and \<open>download_workflow\<close> ends with the
  exception before it builds either set.\<close>

theorem unsplit_batch_counterexample:
  "fst (gather env_up [ch2, ch1] world_corrupt) = Inl OSError
   \<and> fst (download_selected env_up ''Book'' ''Author'' ''cover'' ''about'' [ch2, ch1]
            world_corrupt) = Raised OSError"
  by code_simp

text \<open>C4, amended. For every batch whose tasks all return (none raises), whatever the
  order in which they finish: there is one result per chapter, the result at a position belongs to the
  chapter at that position, the successes are the results of the positions with content
  and the failures the names of the positions without, both in batch order, the two sets
  of positions are disjoint, together they are all positions of the batch, and their
  sizes add up to the size of the batch.\<close>

theorem partition_covers_batch:
  "gather E selected_chapters w = (Inr results, w1) \<longrightarrow>
     length results = length selected_chapters
     \<and> separate selected_chapters (enumerate 0 results) [] [] =
         (map (\<lambda>i. the (results ! i)) (succeeded_at results),
          map (\<lambda>i. name (selected_chapters ! i)) (failed_at results))
     \<and> sorted_wrt (<) (succeeded_at results)
     \<and> sorted_wrt (<) (failed_at results)
     \<and> set (succeeded_at results) \<inter> set (failed_at results) = {}
     \<and> set (succeeded_at results) \<union> set (failed_at results) = {0..<length selected_chapters}
     \<and> length (succeeded_at results) + length (failed_at results) = length selected_chapters
     \<and> (\<forall>i < length selected_chapters. \<forall>it. results ! i = Some it \<longrightarrow>
           title it = name (selected_chapters ! i))"
proof
  assume g: "gather E selected_chapters w = (Inr results, w1)"
  have len: "length results = length selected_chapters"
    using gather_results(1) [OF g] .
  have srt: "sorted_wrt (<) (succeeded_at results)" "sorted_wrt (<) (failed_at results)"
    by (simp_all add: succeeded_at_def failed_at_def sorted_wrt_filter sorted_wrt_upt)
  have dis: "set (succeeded_at results) \<inter> set (failed_at results) = {}"
    by (auto simp add: succeeded_at_def failed_at_def)
  have cov: "set (succeeded_at results) \<union> set (failed_at results) = {0..<length selected_chapters}"
    using len by (auto simp add: succeeded_at_def failed_at_def)
  have sum: "length (succeeded_at results) + length (failed_at results) = length selected_chapters"
    using sum_length_filter_compl [of "\<lambda>i. results ! i \<noteq> None" "[0..<length results]"] len
    by (simp add: succeeded_at_def failed_at_def)
  have pos: "\<forall>i < length selected_chapters. \<forall>it. results ! i = Some it \<longrightarrow>
           title it = name (selected_chapters ! i)"
    using gather_results(2) [OF g] by blast
  show "length results = length selected_chapters
     \<and> separate selected_chapters (enumerate 0 results) [] [] =
         (map (\<lambda>i. the (results ! i)) (succeeded_at results),
          map (\<lambda>i. name (selected_chapters ! i)) (failed_at results))
     \<and> sorted_wrt (<) (succeeded_at results)
     \<and> sorted_wrt (<) (failed_at results)
     \<and> set (succeeded_at results) \<inter> set (failed_at results) = {}
     \<and> set (succeeded_at results) \<union> set (failed_at results) = {0..<length selected_chapters}
     \<and> length (succeeded_at results) + length (failed_at results) = length selected_chapters
     \<and> (\<forall>i < length selected_chapters. \<forall>it. results ! i = Some it \<longrightarrow>
           title it = name (selected_chapters ! i))"
    using len separate_results srt dis cov sum pos by blast
qed

text \<open>C8, as the spec states it: an entry that exists and cannot be read is treated
  as a cache miss. The code reads an existing entry outside any \<open>try\<close>: the fetch
  raises, no request is made, and the exception leaves \<open>download_workflow\<close>.\<close>

theorem unreadable_entry_counterexample:
  "fetch_chapter_content env_up ch1 world_corrupt = (Inl OSError, world_corrupt)
   \<and> get_cached_or_fetch env_up ''ch1'' world_corrupt = (Inl OSError, world_corrupt)
   \<and> trace world_corrupt = []
   \<and> download_selected env_up ''Book'' ''Author'' ''cover'' ''about'' [ch1] world_corrupt
       = (Raised OSError, world_corrupt)"
  by (simp add: fetch_chapter_content_def get_cached_or_fetch_def get_cache_path_def
      env_up_def env_of_def world_corrupt_def ch1_def download_selected_def gather_def
      fetch_with_progress_def)

text \<open>C8, amended. A cache read never raises for an absent entry: the fetch goes on
  to the network and makes a request, and when it raises at all, it is because the
  parser or the write of the new entry raised after a page was downloaded. An entry that
  exists and cannot be read is not treated as a miss: the fetch raises the read error to
  its caller with no request made, and a batch that contains such a chapter ends with an
  exception, neither halted nor packaged.\<close>

theorem unreadable_entry_raises:
  "(files w (get_cache_path E (url ch)) = None \<longrightarrow>
      gets (trace w) < gets (trace (snd (fetch_chapter_content E ch w)))
      \<and> (\<forall>e. fst (fetch_chapter_content E ch w) = Inl e \<longrightarrow>
            (\<exists>html. fst (fetch_url E (url ch) w) = Some html \<and> html \<noteq> []
               \<and> (select_content E html = Inl e
                   \<or> (\<exists>c. select_content E html = Inr (Some c)
                          \<and> write_outcome E (get_cache_path E (url ch)) c \<noteq> WriteOk)))))
   \<and> (files w (get_cache_path E (url ch)) = Some Unreadable \<longrightarrow>
      fetch_chapter_content E ch w = (Inl OSError, w))
   \<and> (files w (get_cache_path E u) = None \<longrightarrow>
      gets (trace w) < gets (trace (snd (get_cached_or_fetch E u w)))
      \<and> (\<forall>e. fst (get_cached_or_fetch E u w) = Inl e \<longrightarrow>
            (\<exists>fetched. fst (fetch_url E u w) = Some fetched \<and> fetched \<noteq> []
                \<and> write_outcome E (get_cache_path E u) fetched \<noteq> WriteOk)))
   \<and> (files w (get_cache_path E u) = Some Unreadable \<longrightarrow>
      get_cached_or_fetch E u w = (Inl OSError, w))
   \<and> ((\<exists>c \<in> set selected_chapters. files w (get_cache_path E (url c)) = Some Unreadable) \<longrightarrow>
      (\<exists>e. fst (download_selected E t a cover d selected_chapters w) = Raised e))"
proof (intro conjI impI allI)
  assume "files w (get_cache_path E (url ch)) = None"
  then show "gets (trace w) < gets (trace (snd (fetch_chapter_content E ch w)))"
    by (rule fcc_miss_requests)
next
  fix e
  assume "files w (get_cache_path E (url ch)) = None"
    and "fst (fetch_chapter_content E ch w) = Inl e"
  then show "\<exists>html. fst (fetch_url E (url ch) w) = Some html \<and> html \<noteq> []
               \<and> (select_content E html = Inl e
                   \<or> (\<exists>c. select_content E html = Inr (Some c)
                          \<and> write_outcome E (get_cache_path E (url ch)) c \<noteq> WriteOk))"
    by (rule fcc_miss_raise)
next
  assume "files w (get_cache_path E (url ch)) = Some Unreadable"
  then show "fetch_chapter_content E ch w = (Inl OSError, w)" by (rule fcc_unreadable)
next
  assume "files w (get_cache_path E u) = None"
  then show "gets (trace w) < gets (trace (snd (get_cached_or_fetch E u w)))"
    by (rule gcf_miss_requests)
next
  fix e
  assume m: "files w (get_cache_path E u) = None"
    and r: "fst (get_cached_or_fetch E u w) = Inl e"
  show "\<exists>fetched. fst (fetch_url E u w) = Some fetched \<and> fetched \<noteq> []
                \<and> write_outcome E (get_cache_path E u) fetched \<noteq> WriteOk"
    using m r by (rule gcf_miss_raise)
next
  assume "files w (get_cache_path E u) = Some Unreadable"
  then show "get_cached_or_fetch E u w = (Inl OSError, w)" by (rule gcf_unreadable)
next
  assume "\<exists>c \<in> set selected_chapters. files w (get_cache_path E (url c)) = Some Unreadable"
  then obtain c where c: "c \<in> set selected_chapters"
      "files w (get_cache_path E (url c)) = Some Unreadable"
    by blast
  obtain e where "fst (gather E selected_chapters w) = Inl e"
    using gather_unreadable [OF c] by blast
  moreover have "selected_chapters \<noteq> []" using c(1) by auto
  ultimately show "\<exists>e. fst (download_selected E t a cover d selected_chapters w) = Raised e"
    by (auto simp add: download_selected_def split: prod.splits sum.splits)
qed

lemma gather3:
  "fst (gather env_ch2_fatal batch3 world0) =
     Inr [Some \<lparr>title = ''Chapter 1'', content = ''<p>story</p>''\<rparr>, None,
          Some \<lparr>title = ''Chapter 3'', content = ''<p>story</p>''\<rparr>]"
  by code_simp

lemma separate3:
  "separate batch3
     (enumerate 0 [Some \<lparr>title = ''Chapter 1'', content = ''<p>story</p>''\<rparr>, None,
                   Some \<lparr>title = ''Chapter 3'', content = ''<p>story</p>''\<rparr>]) [] [] =
     ([\<lparr>title = ''Chapter 1'', content = ''<p>story</p>''\<rparr>,
       \<lparr>title = ''Chapter 3'', content = ''<p>story</p>''\<rparr>], [''Chapter 2''])"
  by code_simp

lemma halted3:
  "fst (download_selected env_ch2_fatal ''Book'' ''Author'' ''cover'' ''about'' batch3 world0)
     = Halted 1 [''Chapter 2'']"
  by code_simp

theorem packaging_gate_witness:
  "batch3 \<noteq> []
   \<and> fst (gather env_ch2_fatal batch3 world0) =
       Inr [Some \<lparr>title = ''Chapter 1'', content = ''<p>story</p>''\<rparr>, None,
            Some \<lparr>title = ''Chapter 3'', content = ''<p>story</p>''\<rparr>]
   \<and> fst (download_selected env_ch2_fatal ''Book'' ''Author'' ''cover'' ''about'' batch3 world0)
       = Halted 1 [''Chapter 2'']
   \<and> filter is_packaging
       (events_since world0
          (snd (download_selected env_ch2_fatal ''Book'' ''Author'' ''cover'' ''about''
                  batch3 world0))) = []"
proof -
  let ?res = "[Some \<lparr>title = ''Chapter 1'', content = ''<p>story</p>''\<rparr>, None,
               Some \<lparr>title = ''Chapter 3'', content = ''<p>story</p>''\<rparr>]"
  let ?dl = "[\<lparr>title = ''Chapter 1'', content = ''<p>story</p>''\<rparr>,
              \<lparr>title = ''Chapter 3'', content = ''<p>story</p>''\<rparr>]"
  let ?d = "download_selected env_ch2_fatal ''Book'' ''Author'' ''cover'' ''about'' batch3 world0"
  have ne: "batch3 \<noteq> []" by (simp add: batch3_def)
  have g: "gather env_ch2_fatal batch3 world0 = (Inr ?res, snd (gather env_ch2_fatal batch3 world0))"
    using gather3 by (simp add: prod_eq_iff)
  have d: "?d = (fst ?d, snd ?d)" by simp
  have "filter is_packaging (events_since world0 (snd ?d))
      = (if [''Chapter 2''] = [] then [CreateEpub ''Book'' ''Author'' ''cover'' ''about'' ?dl]
         else [])"
    using packaging_gate [of batch3 env_ch2_fatal world0 ?res
        "snd (gather env_ch2_fatal batch3 world0)" ?dl "[''Chapter 2'']"
        "''Book''" "''Author''" "''cover''" "''about''" "fst ?d" "snd ?d"]
      ne g separate3 d
    by blast
  then show ?thesis using ne gather3 halted3 by simp
qed


theorem partition_covers_batch_witness:
  "fst (gather env_ch2_fatal batch3 world0) =
       Inr [Some \<lparr>title = ''Chapter 1'', content = ''<p>story</p>''\<rparr>, None,
            Some \<lparr>title = ''Chapter 3'', content = ''<p>story</p>''\<rparr>]
   \<and> separate batch3
       (enumerate 0 [Some \<lparr>title = ''Chapter 1'', content = ''<p>story</p>''\<rparr>, None,
                     Some \<lparr>title = ''Chapter 3'', content = ''<p>story</p>''\<rparr>]) [] [] =
       ([\<lparr>title = ''Chapter 1'', content = ''<p>story</p>''\<rparr>,
         \<lparr>title = ''Chapter 3'', content = ''<p>story</p>''\<rparr>], [''Chapter 2''])
   \<and> set (succeeded_at [Some \<lparr>title = ''Chapter 1'', content = ''<p>story</p>''\<rparr>, None,
                         Some \<lparr>title = ''Chapter 3'', content = ''<p>story</p>''\<rparr>])
       \<union> set (failed_at [Some \<lparr>title = ''Chapter 1'', content = ''<p>story</p>''\<rparr>, None,
                           Some \<lparr>title = ''Chapter 3'', content = ''<p>story</p>''\<rparr>])
       = {0..<length batch3}"
proof -
  let ?res = "[Some \<lparr>title = ''Chapter 1'', content = ''<p>story</p>''\<rparr>, None,
               Some \<lparr>title = ''Chapter 3'', content = ''<p>story</p>''\<rparr>]"
  have g: "gather env_ch2_fatal batch3 world0 = (Inr ?res, snd (gather env_ch2_fatal batch3 world0))"
    using gather3 by (simp add: prod_eq_iff)
  have "set (succeeded_at ?res) \<union> set (failed_at ?res) = {0..<length batch3}"
    using partition_covers_batch [of env_ch2_fatal batch3 world0 ?res
        "snd (gather env_ch2_fatal batch3 world0)"] g
    by blast
  then show ?thesis using gather3 separate3 by simp
qed

theorem unreadable_entry_raises_witness:
  "files world_corrupt (get_cache_path env_up (url ch1)) = Some Unreadable
   \<and> fetch_chapter_content env_up ch1 world_corrupt = (Inl OSError, world_corrupt)
   \<and> (\<exists>e. fst (download_selected env_up ''Book'' ''Author'' ''cover'' ''about'' [ch2, ch1]
                  world_corrupt) = Raised e)"
proof -
  have unreadable: "files world_corrupt (get_cache_path env_up (url ch1)) = Some Unreadable"
    by (simp add: world_corrupt_def get_cache_path_def env_up_def env_of_def ch1_def)
  then have inbatch: "\<exists>c \<in> set [ch2, ch1].
      files world_corrupt (get_cache_path env_up (url c)) = Some Unreadable"
    by simp
  note T = unreadable_entry_raises [of world_corrupt env_up ch1 "''ch1''" "[ch2, ch1]"
      "''Book''" "''Author''" "''cover''" "''about''"]
  have "fetch_chapter_content env_up ch1 world_corrupt = (Inl OSError, world_corrupt)"
    using T unreadable by (elim conjE) simp
  moreover have "\<exists>e. fst (download_selected env_up ''Book'' ''Author'' ''cover'' ''about''
      [ch2, ch1] world_corrupt) = Raised e"
    using T inbatch by (elim conjE) (erule mp)
  ultimately show ?thesis using unreadable by simp
qed

section \<open>The concurrency bound\<close>

lemma sum_list_map_update:
  "i < length ts
   \<Longrightarrow> sum_list (map f (ts[i := t])) + f (ts ! i) = sum_list (map f ts) + (f t :: nat)"
proof (induction ts arbitrary: i)
  case Nil
  then show ?case by simp
next
  case (Cons x ts)
  then show ?case by (cases i) auto
qed

text \<open>A step of a task keeps the sum of the free permits and the permit it holds.\<close>

lemma task_step_permits:
  "task_step E (p, t) (p', t') \<Longrightarrow> p' + holds_permit t' = p + holds_permit t"
  by (induction "(p, t)" "(p', t')" rule: task_step.induct) auto

lemma reachable_permits:
  "reachable E N M s \<Longrightarrow> permits s + permits_held (tasks s) = N"
proof (induction rule: reachable.induct)
  case launched
  show ?case by (simp add: permits_held_def sum_list_replicate)
next
  case (resumed s i p' t')
  have "p' + holds_permit t' = permits s + holds_permit (tasks s ! i)"
    using resumed.hyps(3) by (rule task_step_permits)
  moreover have "permits_held ((tasks s)[i := t']) + holds_permit (tasks s ! i)
      = permits_held (tasks s) + holds_permit t'"
    unfolding permits_held_def using resumed.hyps(2) by (rule sum_list_map_update)
  ultimately show ?case using resumed.IH by simp
qed

lemma reachable_length: "reachable E N M s \<Longrightarrow> length (tasks s) = M"
  by (induction rule: reachable.induct) simp_all

lemma awaits_get_le: "awaits_get t \<le> holds_permit t"
  by (cases t) simp_all

lemma in_flight_le_held: "in_flight ts \<le> permits_held ts"
  unfolding in_flight_def permits_held_def
  by (induction ts) (simp_all add: awaits_get_le add_mono)

text \<open>C9. With a permit pool of size \<open>N\<close> and a batch of \<open>M\<close> chapters downloaded
  concurrently (for every \<open>M\<close>, so also for \<open>M > N\<close>), in every state that the tasks can
  reach, however they interleave, at most \<open>N\<close> calls of \<open>session.get\<close> are in flight:
  the free permits and the permits held always add up to \<open>N\<close>, and a call is in flight
  only while its task holds a permit. With the pool of the configuration the bound
  is 5.\<close>

theorem in_flight_bounded:
  "(reachable E N M s \<longrightarrow>
      in_flight (tasks s) \<le> N
      \<and> permits s + permits_held (tasks s) = N
      \<and> length (tasks s) = M)
   \<and> (reachable E MAX_CONCURRENT_REQUESTS M s' \<longrightarrow> in_flight (tasks s') \<le> 5)"
proof (intro conjI impI)
  assume r: "reachable E N M s"
  then have c: "permits s + permits_held (tasks s) = N" by (rule reachable_permits)
  with in_flight_le_held [of "tasks s"] show "in_flight (tasks s) \<le> N" by simp
  show "permits s + permits_held (tasks s) = N" by (rule c)
  show "length (tasks s) = M" using r by (rule reachable_length)
next
  assume "reachable E MAX_CONCURRENT_REQUESTS M s'"
  then have "permits s' + permits_held (tasks s') = MAX_CONCURRENT_REQUESTS"
    by (rule reachable_permits)
  with in_flight_le_held [of "tasks s'"] show "in_flight (tasks s') \<le> 5"
    by (simp add: MAX_CONCURRENT_REQUESTS_def)
qed

text \<open>Two tasks and one permit: after both have missed the cache and the first has
  entered the block, its request is in flight and the second task waits.\<close>

lemma two_tasks_one_permit:
  "reachable env_up 1 2 \<lparr>permits = 0, tasks = [InFlight 0, Waiting 0]\<rparr>"
proof -
  have s0: "reachable env_up 1 2 \<lparr>permits = 1, tasks = [Start, Start]\<rparr>"
    using reachable.launched [of env_up 1 2] by (simp add: numeral_2_eq_2)
  have s1: "reachable env_up 1 2 \<lparr>permits = 1, tasks = [Waiting 0, Start]\<rparr>"
    using reachable.resumed [OF s0, of 0 1 "Waiting 0"] task_step.cache_miss [of env_up 1]
    by simp
  have s2: "reachable env_up 1 2 \<lparr>permits = 1, tasks = [Waiting 0, Waiting 0]\<rparr>"
    using reachable.resumed [OF s1, of 1 1 "Waiting 0"] task_step.cache_miss [of env_up 1]
    by simp
  show ?thesis
    using reachable.resumed [OF s2, of 0 0 "InFlight 0"] task_step.acquire [of 0 1 env_up]
    by (simp add: MAX_RETRIES_def)
qed

theorem in_flight_bounded_witness:
  "reachable env_up 1 2 \<lparr>permits = 0, tasks = [InFlight 0, Waiting 0]\<rparr>
   \<and> in_flight [InFlight 0, Waiting 0] \<le> 1"
  using in_flight_bounded [of env_up 1 2 "\<lparr>permits = 0, tasks = [InFlight 0, Waiting 0]\<rparr>"
      "\<lparr>permits = 0, tasks = [InFlight 0, Waiting 0]\<rparr>"]
    two_tasks_one_permit
  by simp

end
